theory Spec2Isabelle
  imports Main "HOL-Library.Signed_Division"
begin

section \<open>RobustTimer: the data model\<close>

text \<open>
  The embedding follows \<^verbatim>\<open>source/RobustTimer.cpp\<close>. An object is identified by its
  address (\<open>this\<close>); the live objects are a store from addresses to records of the
  class's members. The member \<^verbatim>\<open>semaphore_\<close> lives in a store of its own, keyed by the
  address of its owner, because \<^verbatim>\<open>sem_init\<close> runs before the constructor has
  succeeded and the signal handler reaches it through the registry's raw pointer.
  The operating system is a collaborator: whether \<^verbatim>\<open>sem_init\<close>, \<^verbatim>\<open>timer_create\<close>,
  \<^verbatim>\<open>timer_settime\<close> and the start of the worker thread succeed, and how \<^verbatim>\<open>sem_wait\<close>
  returns, are arguments of the operation that calls them, and
  \<^verbatim>\<open>SIGRTMIN\<close>, \<^verbatim>\<open>SIGRTMAX\<close> are arguments of the constructor. Every library call,
  every acquisition and release of \<^verbatim>\<open>signal_mutex_\<close>, every access to \<^verbatim>\<open>signal_map_\<close>
  and every callback invocation is appended to a trace, in program order.
  \<^verbatim>\<open>signal_mutex_\<close> is a flag of the state: acquiring it while it is held does not
  return. The operations run one at a time; the states in which one of them is inside its
  critical section, where a signal can still be delivered, are given by functions of
  their own. The user callback is opaque: it is assumed not to call back into the timer.
  \<^verbatim>\<open>long\<close> is modelled by \<open>int\<close>: the only arithmetic is a truncating division and
  remainder by a positive constant, which cannot overflow.
  Members keep their names without the trailing underscore (\<^verbatim>\<open>timer_id_\<close> is
  \<open>timer_id\<close>), which Isabelle's term syntax does not admit.
\<close>

type_synonym ptr = nat

definition nullptr :: ptr where
  "nullptr = 0"

type_synonym long = int

text \<open>
  The exceptions of the source, by throw site: \<^verbatim>\<open>std::invalid_argument\<close> is
  \<open>InvalidArgument\<close>; the \<^verbatim>\<open>std::runtime_error\<close>s are \<open>SemInitFailed\<close> ("Failed to
  initialize semaphore."), \<open>ResourceExhausted\<close> ("No available signal numbers for the
  timer."), \<open>TimerCreationFailed\<close> ("Failed to create timer."), \<open>ArmFailed\<close> ("Failed to
  arm the timer.") and \<open>DisarmFailed\<close> ("Failed to disarm the timer."). \<open>ThreadStartFailed\<close>
  is the \<^verbatim>\<open>std::system_error\<close> that the construction of \<^verbatim>\<open>std::thread\<close> throws when the
  thread cannot be started.
\<close>

datatype error =
    InvalidArgument
  | SemInitFailed
  | ResourceExhausted
  | TimerCreationFailed
  | ThreadStartFailed
  | ArmFailed
  | DisarmFailed

text \<open>
  How a call ends: it returns, it throws, the process is terminated (an exception leaving
  the destructor), the caller waits forever in \<^verbatim>\<open>join\<close>, the caller waits for
  \<^verbatim>\<open>signal_mutex_\<close>, which is held, or the call was made on an address that holds no live
  object (undefined behaviour in C++).
\<close>

datatype outcome = Ok | Threw error | Terminated | Deadlock | Blocked | Undefined

text \<open>
  The worker thread of an object is inside its loop (\<open>Waiting\<close>: at \<^verbatim>\<open>sem_wait\<close>), has left
  the loop (\<open>Finished\<close>), or has been joined.
\<close>

datatype thread_state = Waiting | Finished | Joined

record RobustTimer =
  timer_id :: nat
  timeout_ns :: long
  callback :: "nat option"
  is_running :: bool
  worker_thread :: thread_state
  signal_number :: int

text \<open>An operating-system timer: the signal it delivers and the expiry programmed last.\<close>

record ktimer =
  sigev_signo :: int
  sival_ptr :: ptr
  it_value :: "long \<times> long"

datatype event =
    SemInit ptr bool
  | SemPost ptr
  | SemWait ptr
  | SemWaitEINTR ptr
  | SemDestroy ptr
  | Sigaction int
  | Lock
  | Unlock
  | MapFind int
  | MapInsert int ptr
  | MapErase int
  | TimerCreate int "nat option"
  | TimerSettime nat "long \<times> long" bool
  | TimerDelete nat
  | ThreadStart ptr
  | ThreadStartThrows ptr
  | ThreadJoin ptr
  | Callback ptr

record world =
  signal_map :: "int \<rightharpoonup> ptr"
  signal_mutex :: bool
  objects :: "ptr \<rightharpoonup> RobustTimer"
  sems :: "ptr \<rightharpoonup> nat"
  timers :: "nat \<rightharpoonup> ktimer"
  trace :: "event list"

definition emit :: "event list \<Rightarrow> world \<Rightarrow> world" where
  "emit es w = w\<lparr>trace := trace w @ es\<rparr>"

definition world0 :: world where
  "world0 = \<lparr>signal_map = Map.empty, signal_mutex = False, objects = Map.empty, sems = Map.empty,
             timers = Map.empty, trace = []\<rparr>"

section \<open>The mutex\<close>

text \<open>
  \<^verbatim>\<open>std::lock_guard<std::mutex> lock(signal_mutex_)\<close>: the mutex is not recursive, so the
  acquisition returns only when the mutex is free. \<open>None\<close> is the acquisition that does
  not return. \<open>release_guard\<close> is the end of the guard's scope.
\<close>

definition lock_guard :: "world \<Rightarrow> world option" where
  "lock_guard w =
     (if signal_mutex w then None else Some (emit [Lock] (w\<lparr>signal_mutex := True\<rparr>)))"

definition release_guard :: "world \<Rightarrow> world" where
  "release_guard w = emit [Unlock] (w\<lparr>signal_mutex := False\<rparr>)"

section \<open>The operating-system calls\<close>

text \<open>\<^verbatim>\<open>sem_post\<close> increments the count of an initialised semaphore.\<close>

definition sem_post :: "ptr \<Rightarrow> world \<Rightarrow> world" where
  "sem_post s w =
     emit [SemPost s]
       (case sems w s of
          None \<Rightarrow> w
        | Some n \<Rightarrow> w\<lparr>sems := (sems w)(s \<mapsto> Suc n)\<rparr>)"

text \<open>
  \<^verbatim>\<open>timer_settime(timer_id, 0, &its, nullptr)\<close> with a zero interval: on success the
  timer's programmed expiry is replaced by \<open>its\<close>. The result is whether the call
  returned \<open>0\<close>.
\<close>

definition timer_settime :: "bool \<Rightarrow> nat \<Rightarrow> long \<times> long \<Rightarrow> world \<Rightarrow> bool \<times> world" where
  "timer_settime ok tid its w =
     (ok,
      emit [TimerSettime tid its ok]
        (if ok then
           (case timers w tid of
              None \<Rightarrow> w
            | Some k \<Rightarrow> w\<lparr>timers := (timers w)(tid \<mapsto> k\<lparr>it_value := its\<rparr>)\<rparr>)
         else w))"

section \<open>The member functions\<close>

text \<open>\<^verbatim>\<open>armTimer\<close>: seconds and nanoseconds by C++'s truncating \<^verbatim>\<open>/\<close> and \<^verbatim>\<open>%\<close>.\<close>

definition armTimer :: "bool \<Rightarrow> ptr \<Rightarrow> long \<Rightarrow> world \<Rightarrow> outcome \<times> world" where
  "armTimer settime_ok this ns w =
     (case objects w this of
        None \<Rightarrow> (Undefined, w)
      | Some t \<Rightarrow>
          let its = (ns sdiv 1000000000, ns smod 1000000000);
              (ok, w') = timer_settime settime_ok (timer_id t) its w
          in if ok then (Ok, w') else (Threw ArmFailed, w'))"

definition disarmTimer :: "bool \<Rightarrow> ptr \<Rightarrow> world \<Rightarrow> outcome \<times> world" where
  "disarmTimer settime_ok this w =
     (case objects w this of
        None \<Rightarrow> (Undefined, w)
      | Some t \<Rightarrow>
          let its = (0, 0);
              (ok, w') = timer_settime settime_ok (timer_id t) its w
          in if ok then (Ok, w') else (Threw DisarmFailed, w'))"

text \<open>\<^verbatim>\<open>is_running_.exchange(v)\<close> stores \<open>v\<close> and yields the value held before.\<close>

definition exchange :: "ptr \<Rightarrow> RobustTimer \<Rightarrow> bool \<Rightarrow> world \<Rightarrow> bool \<times> world" where
  "exchange this t v w =
     (is_running t, w\<lparr>objects := (objects w)(this \<mapsto> t\<lparr>is_running := v\<rparr>)\<rparr>)"

definition start :: "bool \<Rightarrow> ptr \<Rightarrow> world \<Rightarrow> outcome \<times> world" where
  "start settime_ok this w =
     (case objects w this of
        None \<Rightarrow> (Undefined, w)
      | Some t \<Rightarrow>
          let (was_running, w1) = exchange this t True w
          in if was_running then (Ok, w1)
             else armTimer settime_ok this (timeout_ns t) w1)"

definition stop :: "bool \<Rightarrow> ptr \<Rightarrow> world \<Rightarrow> outcome \<times> world" where
  "stop settime_ok this w =
     (case objects w this of
        None \<Rightarrow> (Undefined, w)
      | Some t \<Rightarrow>
          let (was_running, w1) = exchange this t False w
          in if \<not> was_running then (Ok, w1)
             else disarmTimer settime_ok this w1)"

definition changeTimeout :: "bool \<Rightarrow> long \<Rightarrow> ptr \<Rightarrow> world \<Rightarrow> outcome \<times> world" where
  "changeTimeout settime_ok new_timeout_ns this w =
     (case objects w this of
        None \<Rightarrow> (Undefined, w)
      | Some t \<Rightarrow>
          let t1 = t\<lparr>timeout_ns := new_timeout_ns\<rparr>;
              w1 = w\<lparr>objects := (objects w)(this \<mapsto> t1)\<rparr>
          in if is_running t1 then armTimer settime_ok this (timeout_ns t1) w1
             else (Ok, w1))"

text \<open>
  \<^verbatim>\<open>signalHandler\<close>: the lock guard, \<^verbatim>\<open>find\<close>, the post when the entry exists and its
  pointer is not null, and the guard's release at the end of the scope. The handler runs
  on whatever thread the signal is delivered to. While the mutex is held the handler
  waits at the guard, and when the holder is the thread it has interrupted (inside the
  constructor's or the destructor's critical section, or inside another invocation of
  the handler, which \<^verbatim>\<open>sa_mask\<close> does not exclude) it waits forever. \<open>None\<close> is the
  handler that has not returned.
\<close>

definition signalHandler :: "int \<Rightarrow> world \<Rightarrow> world option" where
  "signalHandler signo w =
     (case lock_guard w of
        None \<Rightarrow> None
      | Some w0 \<Rightarrow>
          let w1 = emit [MapFind signo] w0;
              w2 = (case signal_map w1 signo of
                      None \<Rightarrow> w1
                    | Some p \<Rightarrow> if p \<noteq> nullptr then sem_post p w1 else w1)
          in Some (release_guard w2))"

text \<open>
  The state in which a handler is inside its critical section, the guard held: another
  signal can be delivered here.
\<close>

definition signalHandler_critical :: "int \<Rightarrow> world \<Rightarrow> world option" where
  "signalHandler_critical signo w = map_option (emit [MapFind signo]) (lock_guard w)"

text \<open>
  The worker. \<^verbatim>\<open>sem_wait(&semaphore_)\<close> returns in one of two ways, and the loop does not
  look at its result: \<open>Posted\<close>, it has decremented a positive count; \<open>Interrupted\<close>, it
  has returned \<open>-1\<close> with nothing decremented, as it does with \<^verbatim>\<open>EINTR\<close> when a handler
  installed without \<^verbatim>\<open>SA_RESTART\<close> has run on the worker thread. \<open>None\<close> is the call that
  has not returned: no post is pending.
  \<open>worker_iteration\<close> is one pass through the loop body, from the return of
  \<^verbatim>\<open>sem_wait\<close> to the \<^verbatim>\<open>break\<close> or to the next \<^verbatim>\<open>sem_wait\<close>. \<open>runnable\<close>: the thread is in
  its loop and a post is pending. \<open>workerThread\<close> runs the loop on the pending posts, no
  signal interrupting it, until the thread leaves the loop or blocks.
\<close>

datatype wake = Posted | Interrupted

definition sem_wait :: "wake \<Rightarrow> ptr \<Rightarrow> world \<Rightarrow> world option" where
  "sem_wait k s w =
     (case k of
        Interrupted \<Rightarrow> Some (emit [SemWaitEINTR s] w)
      | Posted \<Rightarrow>
          (case sems w s of
             None \<Rightarrow> None
           | Some 0 \<Rightarrow> None
           | Some (Suc n) \<Rightarrow> Some (emit [SemWait s] (w\<lparr>sems := (sems w)(s \<mapsto> n)\<rparr>))))"

definition runnable :: "ptr \<Rightarrow> world \<Rightarrow> bool" where
  "runnable this w =
     (case objects w this of
        None \<Rightarrow> False
      | Some t \<Rightarrow>
          worker_thread t = Waiting \<and>
          (case sems w this of None \<Rightarrow> False | Some n \<Rightarrow> 0 < n))"

definition worker_iteration :: "wake \<Rightarrow> ptr \<Rightarrow> world \<Rightarrow> world" where
  "worker_iteration k this w =
     (case objects w this of
        None \<Rightarrow> w
      | Some t \<Rightarrow>
          if worker_thread t \<noteq> Waiting then w
          else
            (case sem_wait k this w of
               None \<Rightarrow> w
             | Some w1 \<Rightarrow>
                 if \<not> is_running t then
                   w1\<lparr>objects := (objects w1)(this \<mapsto> t\<lparr>worker_thread := Finished\<rparr>)\<rparr>
                 else if callback t \<noteq> None then emit [Callback this] w1
                 else w1))"

definition pending :: "ptr \<Rightarrow> world \<Rightarrow> nat" where
  "pending this w = (case sems w this of None \<Rightarrow> 0 | Some n \<Rightarrow> n)"

function workerThread :: "ptr \<Rightarrow> world \<Rightarrow> world" where
  "workerThread this w =
     (if runnable this w then workerThread this (worker_iteration Posted this w) else w)"
  by pat_completeness auto
termination
  by (relation "measure (\<lambda>(this, w). pending this w)")
     (auto simp: runnable_def worker_iteration_def sem_wait_def pending_def emit_def Let_def
           split: option.splits nat.splits)

declare workerThread.simps [simp del]

text \<open>
  The allocation loop of the constructor, from \<open>signo\<close> up to \<^verbatim>\<open>SIGRTMAX\<close>. The result
  is the value of \<^verbatim>\<open>signal_number_\<close> after the loop, \<open>-1\<close> when none was free.
\<close>

function scan :: "int \<Rightarrow> int \<Rightarrow> ptr \<Rightarrow> world \<Rightarrow> int \<times> world" where
  "scan signo SIGRTMAX this w =
     (if signo \<le> SIGRTMAX then
        (if signal_map w signo = None then
           (signo,
            emit [MapFind signo, Sigaction signo, MapInsert signo this]
              (w\<lparr>signal_map := (signal_map w)(signo \<mapsto> this)\<rparr>))
         else scan (signo + 1) SIGRTMAX this (emit [MapFind signo] w))
      else (- 1, w))"
  by pat_completeness auto
termination
  by (relation "measure (\<lambda>(signo, SIGRTMAX, this, w). nat (SIGRTMAX + 1 - signo))") auto

declare scan.simps [simp del]

text \<open>
  The constructor up to the end of the allocation loop, once the callback has been found
  non-empty and \<^verbatim>\<open>sem_init\<close> has succeeded: the value of \<^verbatim>\<open>signal_number_\<close> and the state
  inside the critical section, the guard still held. \<open>None\<close>: the mutex was held and the
  constructor waits for it.
\<close>

definition ctor_reserve :: "int \<Rightarrow> int \<Rightarrow> ptr \<Rightarrow> world \<Rightarrow> (int \<times> world) option" where
  "ctor_reserve SIGRTMIN SIGRTMAX this w =
     map_option (scan SIGRTMIN SIGRTMAX this)
       (lock_guard (emit [SemInit this True] (w\<lparr>sems := (sems w)(this \<mapsto> 0)\<rparr>)))"

text \<open>
  The constructor. \<open>created\<close> is the timer that \<^verbatim>\<open>timer_create\<close> returns, if it succeeds;
  \<open>thread_ok\<close> is whether the construction of \<^verbatim>\<open>std::thread\<close> succeeds. When it throws,
  nothing is undone: the registry entry, the timer and the semaphore stay, and no object
  is produced.
\<close>

definition RobustTimer_ctor ::
  "int \<Rightarrow> int \<Rightarrow> bool \<Rightarrow> nat option \<Rightarrow> bool \<Rightarrow> ptr \<Rightarrow> long \<Rightarrow> nat option \<Rightarrow> world \<Rightarrow>
     outcome \<times> world" where
  "RobustTimer_ctor SIGRTMIN SIGRTMAX sem_init_ok created thread_ok this ns cb w =
     (if cb = None then (Threw InvalidArgument, w)
      else if \<not> sem_init_ok then (Threw SemInitFailed, emit [SemInit this False] w)
      else
        (case ctor_reserve SIGRTMIN SIGRTMAX this w of
           None \<Rightarrow> (Blocked, emit [SemInit this True] (w\<lparr>sems := (sems w)(this \<mapsto> 0)\<rparr>))
         | Some (signo, w2) \<Rightarrow>
             let w3 = release_guard w2
             in if signo = - 1 then (Threw ResourceExhausted, w3)
                else
                  (case created of
                     None \<Rightarrow>
                       (case lock_guard (emit [TimerCreate signo None] w3) of
                          None \<Rightarrow> (Blocked, emit [TimerCreate signo None] w3)
                        | Some w4 \<Rightarrow>
                            (Threw TimerCreationFailed,
                             release_guard
                               (emit [MapErase signo]
                                  (w4\<lparr>signal_map := (signal_map w4)(signo := None)\<rparr>))))
                   | Some tid \<Rightarrow>
                       let w4 = emit [TimerCreate signo (Some tid)]
                                  (w3\<lparr>timers := (timers w3)(tid \<mapsto>
                                        \<lparr>sigev_signo = signo, sival_ptr = this,
                                         it_value = (0, 0)\<rparr>)\<rparr>)
                       in if \<not> thread_ok then
                            (Threw ThreadStartFailed, emit [ThreadStartThrows this] w4)
                          else
                            (Ok,
                             emit [ThreadStart this]
                               (w4\<lparr>objects := (objects w4)(this \<mapsto>
                                     \<lparr>timer_id = tid, timeout_ns = ns, callback = cb,
                                      is_running = False, worker_thread = Waiting,
                                      signal_number = signo\<rparr>)\<rparr>)))))"

text \<open>
  The destructor. A thread that has not been joined is joinable. \<^verbatim>\<open>join\<close> returns
  once the worker has left its loop; the worker runs while the caller waits, and a worker
  that blocks again leaves the caller waiting forever. An exception thrown by \<^verbatim>\<open>stop\<close>
  leaves a destructor, which terminates the process.
\<close>

definition RobustTimer_dtor :: "bool \<Rightarrow> ptr \<Rightarrow> world \<Rightarrow> outcome \<times> world" where
  "RobustTimer_dtor settime_ok this w =
     (let (r, w1) = stop settime_ok this w
      in if r = Undefined then (Undefined, w1)
         else if r \<noteq> Ok then (Terminated, w1)
         else
           (case objects w1 this of
              None \<Rightarrow> (Undefined, w1)
            | Some t \<Rightarrow>
                let w2 = emit [TimerDelete (timer_id t)]
                           (w1\<lparr>timers := (timers w1)(timer_id t := None)\<rparr>);
                    w3 = sem_post this w2;
                    w4 = (if worker_thread t \<noteq> Joined then workerThread this w3 else w3)
                in (case objects w4 this of
                      None \<Rightarrow> (Undefined, w4)
                    | Some t4 \<Rightarrow>
                        if worker_thread t4 = Waiting then (Deadlock, w4)
                        else
                          let w5 = emit ((if worker_thread t \<noteq> Joined then [ThreadJoin this]
                                          else []) @ [SemDestroy this])
                                     (w4\<lparr>sems := (sems w4)(this := None)\<rparr>)
                          in (case lock_guard w5 of
                                None \<Rightarrow> (Blocked, w5)
                              | Some w6 \<Rightarrow>
                                  let w7 = release_guard
                                             (emit [MapErase (signal_number t4)]
                                                (w6\<lparr>signal_map :=
                                                      (signal_map w6)(signal_number t4 := None)\<rparr>))
                                  in (Ok, w7\<lparr>objects := (objects w7)(this := None)\<rparr>)))))"

section \<open>Schedules\<close>

text \<open>
  What can happen to one instance between its construction and its destruction: the
  caller's three operations (each with the result of its \<^verbatim>\<open>timer_settime\<close> call), the
  delivery of a signal, and the worker thread making one pass through its loop, woken by
  a post (\<open>Worker\<close>) or by an interrupted \<^verbatim>\<open>sem_wait\<close> (\<open>WorkerEINTR\<close>). A schedule is a
  list of such actions, applied in order; the outcomes of the caller's operations are
  dropped. A schedule in which a handler does not return has no final state.
\<close>

datatype action =
    Start bool
  | Stop bool
  | ChangeTimeout bool long
  | Signal int
  | Worker
  | WorkerEINTR

fun apply_action :: "ptr \<Rightarrow> action \<Rightarrow> world \<Rightarrow> world option" where
  "apply_action this (Start ok) w = Some (snd (start ok this w))"
| "apply_action this (Stop ok) w = Some (snd (stop ok this w))"
| "apply_action this (ChangeTimeout ok d) w = Some (snd (changeTimeout ok d this w))"
| "apply_action this (Signal signo) w = signalHandler signo w"
| "apply_action this Worker w = Some (worker_iteration Posted this w)"
| "apply_action this WorkerEINTR w = Some (worker_iteration Interrupted this w)"

fun run :: "ptr \<Rightarrow> action list \<Rightarrow> world \<Rightarrow> world option" where
  "run this [] w = Some w"
| "run this (a # as) w =
     (case apply_action this a w of None \<Rightarrow> None | Some w' \<Rightarrow> run this as w')"

definition finished :: "ptr \<Rightarrow> world \<Rightarrow> bool" where
  "finished this w =
     (case objects w this of None \<Rightarrow> False | Some t \<Rightarrow> worker_thread t = Finished)"

text \<open>The events appended to the trace between two states.\<close>

definition new_events :: "world \<Rightarrow> world \<Rightarrow> event list" where
  "new_events w w' = drop (length (trace w)) (trace w')"

text \<open>
  Observations of a state: the object at an address, and the registry entry of a signal
  number.
\<close>

definition object_at :: "ptr \<Rightarrow> world \<Rightarrow> RobustTimer option" where
  "object_at p w = objects w p"

definition entry_at :: "int \<Rightarrow> world \<Rightarrow> ptr option" where
  "entry_at s w = signal_map w s"

section \<open>The registry invariant and the pool\<close>

text \<open>
  The registry maps a signal number to an address exactly when the live object at that
  address owns the signal number.
\<close>

definition registry_inv :: "world \<Rightarrow> bool" where
  "registry_inv w \<longleftrightarrow>
     (\<forall>s p. signal_map w s = Some p \<longleftrightarrow> (\<exists>t. objects w p = Some t \<and> signal_number t = s))"

text \<open>Every signal number from \<open>lo\<close> to \<open>hi\<close> has an entry in the registry.\<close>

definition pool_exhausted :: "int \<Rightarrow> int \<Rightarrow> world \<Rightarrow> bool" where
  "pool_exhausted lo hi w = list_all (\<lambda>s. signal_map w s \<noteq> None) [lo..hi]"

section \<open>Example states\<close>

text \<open>
  \<open>world1\<close>: one live, stopped instance at address \<open>100\<close>, owning signal \<open>34\<close> and timer
  \<open>7\<close>, with a timeout of 50 ns. \<open>world2\<close>: a second live instance at address \<open>200\<close>
  owning signal \<open>35\<close>, running; with \<^verbatim>\<open>SIGRTMIN = 34\<close> and \<^verbatim>\<open>SIGRTMAX = 35\<close> the pool
  is then exhausted. In both the mutex is free.
\<close>

definition timer1 :: RobustTimer where
  "timer1 = \<lparr>timer_id = 7, timeout_ns = 50, callback = Some 0, is_running = False,
              worker_thread = Waiting, signal_number = 34\<rparr>"

definition timer2 :: RobustTimer where
  "timer2 = \<lparr>timer_id = 8, timeout_ns = 2500000000, callback = Some 1, is_running = True,
              worker_thread = Waiting, signal_number = 35\<rparr>"

definition world1 :: world where
  "world1 = \<lparr>signal_map = [34 \<mapsto> 100], signal_mutex = False, objects = [100 \<mapsto> timer1], sems = [100 \<mapsto> 0],
             timers = [7 \<mapsto> \<lparr>sigev_signo = 34, sival_ptr = 100, it_value = (0, 0)\<rparr>],
             trace = []\<rparr>"

definition world2 :: world where
  "world2 = \<lparr>signal_map = [34 \<mapsto> 100, 35 \<mapsto> 200], signal_mutex = False,
             objects = [100 \<mapsto> timer1, 200 \<mapsto> timer2],
             sems = [100 \<mapsto> 0, 200 \<mapsto> 0],
             timers = [7 \<mapsto> \<lparr>sigev_signo = 34, sival_ptr = 100, it_value = (0, 0)\<rparr>,
                       8 \<mapsto> \<lparr>sigev_signo = 35, sival_ptr = 200, it_value = (2, 500000000)\<rparr>],
             trace = []\<rparr>"

section \<open>Basic facts about the operations\<close>

lemma emit_simps [simp]:
  "signal_map (emit es w) = signal_map w"
  "signal_mutex (emit es w) = signal_mutex w"
  "objects (emit es w) = objects w"
  "sems (emit es w) = sems w"
  "timers (emit es w) = timers w"
  "trace (emit es w) = trace w @ es"
  by (simp_all add: emit_def)

lemma timer_settime_simps [simp]:
  "fst (timer_settime ok tid its w) = ok"
  "signal_map (snd (timer_settime ok tid its w)) = signal_map w"
  "signal_mutex (snd (timer_settime ok tid its w)) = signal_mutex w"
  "objects (snd (timer_settime ok tid its w)) = objects w"
  "sems (snd (timer_settime ok tid its w)) = sems w"
  "trace (snd (timer_settime ok tid its w)) = trace w @ [TimerSettime tid its ok]"
  "timers (snd (timer_settime ok tid its w)) =
     (if ok then (case timers w tid of None \<Rightarrow> timers w
                  | Some k \<Rightarrow> (timers w)(tid \<mapsto> k\<lparr>it_value := its\<rparr>))
      else timers w)"
  by (simp_all add: timer_settime_def split: option.splits)

lemma armTimer_live:
  assumes "objects w this = Some t"
  shows "fst (armTimer ok this ns w) = (if ok then Ok else Threw ArmFailed)"
    and "snd (armTimer ok this ns w) =
           snd (timer_settime ok (timer_id t) (ns sdiv 1000000000, ns smod 1000000000) w)"
  using assms by (simp_all add: armTimer_def Let_def split_beta)

lemma disarmTimer_live:
  assumes "objects w this = Some t"
  shows "fst (disarmTimer ok this w) = (if ok then Ok else Threw DisarmFailed)"
    and "snd (disarmTimer ok this w) = snd (timer_settime ok (timer_id t) (0, 0) w)"
  using assms by (simp_all add: disarmTimer_def Let_def split_beta)

lemma world_upd_objects_same:
  "objects w this = Some t \<Longrightarrow> w\<lparr>objects := (objects w)(this \<mapsto> t)\<rparr> = w"
  by (simp add: map_upd_triv)

lemma start_running:
  assumes "objects w this = Some t" "is_running t"
  shows "start ok this w = (Ok, w)"
proof -
  have "t\<lparr>is_running := True\<rparr> = t" using assms(2) by simp
  then show ?thesis
    using assms by (simp add: start_def exchange_def world_upd_objects_same)
qed

lemma start_stopped:
  assumes "objects w this = Some t" "\<not> is_running t"
  shows "fst (start ok this w) = (if ok then Ok else Threw ArmFailed)"
    and "snd (start ok this w) =
           snd (timer_settime ok (timer_id t)
                  (timeout_ns t sdiv 1000000000, timeout_ns t smod 1000000000)
                  (w\<lparr>objects := (objects w)(this \<mapsto> t\<lparr>is_running := True\<rparr>)\<rparr>))"
  using assms by (simp_all add: start_def exchange_def armTimer_live)

text \<open>The seconds and nanoseconds passed to the operating system add up to the duration.\<close>

lemma sdiv_smod_ns: "(d::int) sdiv 1000000000 * 1000000000 + d smod 1000000000 = d"
  by (rule sdiv_mult_smod_eq)

lemma world1_simps [simp]:
  "objects world1 100 = Some timer1"
  "\<not> signal_mutex world1"
  "signal_map world1 34 = Some 100"
  "sems world1 100 = Some 0"
  "trace world1 = []"
  "timers world1 7 = Some \<lparr>sigev_signo = 34, sival_ptr = 100, it_value = (0, 0)\<rparr>"
  by (simp_all add: world1_def)

lemma timer1_simps [simp]:
  "timer_id timer1 = 7" "timeout_ns timer1 = 50" "callback timer1 = Some 0"
  "is_running timer1 = False" "worker_thread timer1 = Waiting" "signal_number timer1 = 34"
  by (simp_all add: timer1_def)

section \<open>start\<close>

text \<open>
  Claim C7. On a live instance, \<open>start\<close> called while the running flag is set returns
  normally and leaves the whole state as it was: no call to the operating system, no
  change of the programmed expiry. Called while the flag is clear, it sets the flag and
  makes exactly one \<^verbatim>\<open>timer_settime\<close> call, for this instance's timer, whose seconds and
  nanoseconds are those of the configured timeout; when that call succeeds the timer's
  programmed expiry is the configured timeout.
\<close>

theorem start_arms_when_stopped_and_is_noop_when_running:
  assumes "objects w this = Some t"
  shows "(is_running t \<longrightarrow> start ok this w = (Ok, w)) \<and>
         (\<not> is_running t \<longrightarrow>
            fst (start ok this w) = (if ok then Ok else Threw ArmFailed) \<and>
            objects (snd (start ok this w)) = (objects w)(this \<mapsto> t\<lparr>is_running := True\<rparr>) \<and>
            trace (snd (start ok this w)) =
              trace w @ [TimerSettime (timer_id t)
                           (timeout_ns t sdiv 1000000000, timeout_ns t smod 1000000000) ok] \<and>
            timeout_ns t sdiv 1000000000 * 1000000000 + timeout_ns t smod 1000000000
              = timeout_ns t \<and>
            (\<forall>k. ok \<and> timers w (timer_id t) = Some k \<longrightarrow>
                 timers (snd (start ok this w)) (timer_id t) =
                   Some (k\<lparr>it_value := (timeout_ns t sdiv 1000000000,
                                          timeout_ns t smod 1000000000)\<rparr>)) \<and>
            signal_map (snd (start ok this w)) = signal_map w \<and>
            sems (snd (start ok this w)) = sems w)"
  using assms by (simp add: start_running start_stopped sdiv_smod_ns)

theorem start_witness:
  "objects world1 100 = Some timer1 \<and> \<not> is_running timer1 \<and>
   fst (start True 100 world1) = Ok \<and>
   trace (snd (start True 100 world1)) = [TimerSettime 7 (0, 50) True] \<and>
   start True 100 (snd (start True 100 world1)) = (Ok, snd (start True 100 world1))"
proof -
  have h: "objects world1 100 = Some timer1" by simp
  note a = start_arms_when_stopped_and_is_noop_when_running [OF h, of True]
  have h2: "objects (snd (start True 100 world1)) 100 = Some (timer1\<lparr>is_running := True\<rparr>)"
    using a by simp
  note b = start_arms_when_stopped_and_is_noop_when_running [OF h2, of True]
  show ?thesis using a b
    by (simp add: signed_divide_int_def signed_modulo_int_def)
qed

lemma changeTimeout_running:
  assumes "objects w this = Some t" "is_running t"
  shows "fst (changeTimeout ok d this w) = (if ok then Ok else Threw ArmFailed)"
    and "snd (changeTimeout ok d this w) =
           snd (timer_settime ok (timer_id t) (d sdiv 1000000000, d smod 1000000000)
                  (w\<lparr>objects := (objects w)(this \<mapsto> t\<lparr>timeout_ns := d\<rparr>)\<rparr>))"
  using assms by (simp_all add: changeTimeout_def Let_def armTimer_live)

lemma changeTimeout_stopped:
  assumes "objects w this = Some t" "\<not> is_running t"
  shows "changeTimeout ok d this w =
           (Ok, w\<lparr>objects := (objects w)(this \<mapsto> t\<lparr>timeout_ns := d\<rparr>)\<rparr>)"
  using assms by (simp add: changeTimeout_def Let_def)

lemma world2_simps [simp]:
  "objects world2 100 = Some timer1"
  "\<not> signal_mutex world2"
  "objects world2 200 = Some timer2"
  "signal_map world2 34 = Some 100"
  "signal_map world2 35 = Some 200"
  "sems world2 100 = Some 0"
  "sems world2 200 = Some 0"
  "trace world2 = []"
  "timers world2 7 = Some \<lparr>sigev_signo = 34, sival_ptr = 100, it_value = (0, 0)\<rparr>"
  "timers world2 8 = Some \<lparr>sigev_signo = 35, sival_ptr = 200, it_value = (2, 500000000)\<rparr>"
  by (simp_all add: world2_def)

lemma timer2_simps [simp]:
  "timer_id timer2 = 8" "timeout_ns timer2 = 2500000000" "callback timer2 = Some 1"
  "is_running timer2 = True" "worker_thread timer2 = Waiting" "signal_number timer2 = 35"
  by (simp_all add: timer2_def)

section \<open>changeTimeout\<close>

text \<open>
  Claim C6. On a live instance and for every duration \<open>d\<close>, \<open>changeTimeout\<close> stores \<open>d\<close>
  as the configured timeout, whatever else happens. When the running flag is set it makes
  exactly one \<^verbatim>\<open>timer_settime\<close> call, for this instance's timer, whose seconds and
  nanoseconds add up to \<open>d\<close>, and on success the timer's programmed expiry is replaced by
  that value. When the flag is clear it makes no call and leaves the timers alone, and
  the next \<open>start\<close> arms with \<open>d\<close>.
\<close>

theorem changeTimeout_stores_and_rearms_only_when_running:
  assumes "objects w this = Some t"
  shows "objects (snd (changeTimeout ok d this w)) = (objects w)(this \<mapsto> t\<lparr>timeout_ns := d\<rparr>) \<and>
         signal_map (snd (changeTimeout ok d this w)) = signal_map w \<and>
         sems (snd (changeTimeout ok d this w)) = sems w \<and>
         (is_running t \<longrightarrow>
            fst (changeTimeout ok d this w) = (if ok then Ok else Threw ArmFailed) \<and>
            trace (snd (changeTimeout ok d this w)) =
              trace w @ [TimerSettime (timer_id t) (d sdiv 1000000000, d smod 1000000000) ok] \<and>
            d sdiv 1000000000 * 1000000000 + d smod 1000000000 = d \<and>
            (\<forall>k. ok \<and> timers w (timer_id t) = Some k \<longrightarrow>
                 timers (snd (changeTimeout ok d this w)) (timer_id t) =
                   Some (k\<lparr>it_value := (d sdiv 1000000000, d smod 1000000000)\<rparr>))) \<and>
         (\<not> is_running t \<longrightarrow>
            fst (changeTimeout ok d this w) = Ok \<and>
            trace (snd (changeTimeout ok d this w)) = trace w \<and>
            timers (snd (changeTimeout ok d this w)) = timers w \<and>
            trace (snd (start ok' this (snd (changeTimeout ok d this w)))) =
              trace w @ [TimerSettime (timer_id t) (d sdiv 1000000000, d smod 1000000000) ok'])"
proof (cases "is_running t")
  case True
  with assms show ?thesis
    by (simp add: changeTimeout_running sdiv_smod_ns)
next
  case False
  let ?w' = "w\<lparr>objects := (objects w)(this \<mapsto> t\<lparr>timeout_ns := d\<rparr>)\<rparr>"
  have live: "objects ?w' this = Some (t\<lparr>timeout_ns := d\<rparr>)" by simp
  have "\<not> is_running (t\<lparr>timeout_ns := d\<rparr>)" using False by simp
  from start_stopped(2) [OF live this, of ok']
  have "trace (snd (start ok' this ?w')) =
          trace w @ [TimerSettime (timer_id t) (d sdiv 1000000000, d smod 1000000000) ok']"
    by simp
  with assms False show ?thesis
    by (simp add: changeTimeout_stopped)
qed

theorem changeTimeout_witness:
  "objects world2 200 = Some timer2 \<and> is_running timer2 \<and>
   objects world2 100 = Some timer1 \<and> \<not> is_running timer1 \<and>
   fst (changeTimeout True (- 1500000001) 200 world2) = Ok \<and>
   trace (snd (changeTimeout True (- 1500000001) 200 world2)) =
     [TimerSettime 8 (- 1, - 500000001) True] \<and>
   map_option it_value (timers (snd (changeTimeout True 30 200 world2)) 8) = Some (0, 30) \<and>
   trace (snd (changeTimeout True 30 100 world2)) = [] \<and>
   trace (snd (start True 100 (snd (changeTimeout True 30 100 world2)))) =
     [TimerSettime 7 (0, 30) True]"
proof -
  have h2: "objects world2 200 = Some timer2" and h1: "objects world2 100 = Some timer1"
    by simp_all
  note a = changeTimeout_stores_and_rearms_only_when_running [OF h2, of True "- 1500000001"]
  note b = changeTimeout_stores_and_rearms_only_when_running [OF h2, of True 30]
  note c = changeTimeout_stores_and_rearms_only_when_running [OF h1, of True 30 True]
  show ?thesis using a b c
    by (simp add: signed_divide_int_def signed_modulo_int_def)
qed

section \<open>Failure of the arm call\<close>

text \<open>
  Claim C9. When \<^verbatim>\<open>timer_settime\<close> fails inside \<open>start\<close> on a stopped instance, the
  call throws, the running flag is left set and no timer is programmed, so that any later
  \<open>start\<close> returns without doing anything. When it fails inside \<open>changeTimeout\<close> on a
  running instance, the call throws and the configured timeout is already the new one.
\<close>

theorem arm_failure_keeps_flag_and_new_timeout:
  assumes "objects w this = Some t"
  shows "(\<not> is_running t \<longrightarrow>
            fst (start False this w) = Threw ArmFailed \<and>
            objects (snd (start False this w)) = (objects w)(this \<mapsto> t\<lparr>is_running := True\<rparr>) \<and>
            timers (snd (start False this w)) = timers w \<and>
            start ok this (snd (start False this w)) = (Ok, snd (start False this w))) \<and>
         (is_running t \<longrightarrow>
            fst (changeTimeout False d this w) = Threw ArmFailed \<and>
            objects (snd (changeTimeout False d this w)) =
              (objects w)(this \<mapsto> t\<lparr>timeout_ns := d\<rparr>) \<and>
            timers (snd (changeTimeout False d this w)) = timers w)"
proof -
  have "start ok this (snd (start False this w)) = (Ok, snd (start False this w))"
    if "\<not> is_running t"
  proof -
    have "objects (snd (start False this w)) this = Some (t\<lparr>is_running := True\<rparr>)"
      using assms that by (simp add: start_stopped)
    then show ?thesis by (rule start_running) simp
  qed
  with assms show ?thesis
    by (simp add: start_stopped changeTimeout_running)
qed

theorem arm_failure_witness:
  "objects world2 100 = Some timer1 \<and> \<not> is_running timer1 \<and>
   objects world2 200 = Some timer2 \<and> is_running timer2 \<and>
   fst (start False 100 world2) = Threw ArmFailed \<and>
   map_option is_running (objects (snd (start False 100 world2)) 100) = Some True \<and>
   fst (start True 100 (snd (start False 100 world2))) = Ok \<and>
   trace (snd (start True 100 (snd (start False 100 world2)))) =
     [TimerSettime 7 (0, 50) False] \<and>
   fst (changeTimeout False 30 200 world2) = Threw ArmFailed \<and>
   map_option timeout_ns (objects (snd (changeTimeout False 30 200 world2)) 200) = Some 30"
proof -
  have h2: "objects world2 200 = Some timer2" and h1: "objects world2 100 = Some timer1"
    by simp_all
  note a = arm_failure_keeps_flag_and_new_timeout [OF h1, of True]
  note b = arm_failure_keeps_flag_and_new_timeout [OF h2, of _ 30]
  have "trace (snd (start False 100 world2)) = [TimerSettime 7 (0, 50) False]"
    using start_stopped(2) [OF h1, of False]
    by (simp add: signed_divide_int_def signed_modulo_int_def)
  then show ?thesis using a b by simp
qed

section \<open>The allocation loop\<close>

lemma pool_exhausted_iff:
  "pool_exhausted lo hi w \<longleftrightarrow> (\<forall>s. lo \<le> s \<and> s \<le> hi \<longrightarrow> signal_map w s \<noteq> None)"
  by (auto simp: pool_exhausted_def list_all_iff)

lemma scan_unfold_taken:
  "signo \<le> SIGRTMAX \<Longrightarrow> signal_map w signo \<noteq> None \<Longrightarrow>
     scan signo SIGRTMAX this w = scan (signo + 1) SIGRTMAX this (emit [MapFind signo] w)"
  by (subst scan.simps) auto

lemma scan_unfold_free:
  "signo \<le> SIGRTMAX \<Longrightarrow> signal_map w signo = None \<Longrightarrow>
     scan signo SIGRTMAX this w =
       (signo, emit [MapFind signo, Sigaction signo, MapInsert signo this]
                 (w\<lparr>signal_map := (signal_map w)(signo \<mapsto> this)\<rparr>))"
  by (subst scan.simps) simp

lemma scan_unfold_end:
  "\<not> signo \<le> SIGRTMAX \<Longrightarrow> scan signo SIGRTMAX this w = (- 1, w)"
  by (subst scan.simps) simp

lemma scan_frame:
  "objects (snd (scan lo hi this w)) = objects w \<and>
   sems (snd (scan lo hi this w)) = sems w \<and>
   timers (snd (scan lo hi this w)) = timers w \<and>
   signal_mutex (snd (scan lo hi this w)) = signal_mutex w"
proof (induction lo hi this w rule: scan.induct)
  case (1 signo SIGRTMAX this w)
  consider (stop) "\<not> signo \<le> SIGRTMAX"
    | (free) "signo \<le> SIGRTMAX" "signal_map w signo = None"
    | (taken) "signo \<le> SIGRTMAX" "signal_map w signo \<noteq> None"
    by blast
  then show ?case
  proof cases
    case stop
    then show ?thesis by (simp add: scan_unfold_end)
  next
    case free
    then show ?thesis by (simp add: scan_unfold_free)
  next
    case taken
    with "1.IH" show ?thesis by (simp add: scan_unfold_taken)
  qed
qed

lemma scan_exhausted:
  "\<forall>s. lo \<le> s \<and> s \<le> hi \<longrightarrow> signal_map w s \<noteq> None \<Longrightarrow>
     fst (scan lo hi this w) = - 1 \<and>
     signal_map (snd (scan lo hi this w)) = signal_map w \<and>
     trace (snd (scan lo hi this w)) = trace w @ map MapFind [lo..hi]"
proof (induction lo hi this w rule: scan.induct)
  case (1 signo SIGRTMAX this w)
  show ?case
  proof (cases "signo \<le> SIGRTMAX")
    case True
    then have taken: "signal_map w signo \<noteq> None" using "1.prems" by simp
    have rest: "\<forall>s. signo + 1 \<le> s \<and> s \<le> SIGRTMAX \<longrightarrow>
              signal_map (emit [MapFind signo] w) s \<noteq> None"
      using "1.prems" by simp
    have up: "[signo..SIGRTMAX] = signo # [signo + 1..SIGRTMAX]"
      using True by (simp add: upto_rec1)
    from "1.IH" [OF True taken rest] show ?thesis
      by (simp add: scan_unfold_taken [OF True taken] up)
  next
    case False
    then show ?thesis by (simp add: scan_unfold_end)
  qed
qed

lemma scan_first_free:
  "lo \<le> s \<Longrightarrow> s \<le> hi \<Longrightarrow> signal_map w s = None \<Longrightarrow>
   \<forall>s'. lo \<le> s' \<and> s' < s \<longrightarrow> signal_map w s' \<noteq> None \<Longrightarrow>
     fst (scan lo hi this w) = s \<and>
     signal_map (snd (scan lo hi this w)) = (signal_map w)(s \<mapsto> this) \<and>
     trace (snd (scan lo hi this w)) =
       trace w @ map MapFind [lo..s] @ [Sigaction s, MapInsert s this]"
proof (induction lo hi this w rule: scan.induct)
  case (1 signo SIGRTMAX this w)
  from "1.prems" have le: "signo \<le> SIGRTMAX" by simp
  show ?case
  proof (cases "signal_map w signo = None")
    case True
    have "s = signo"
    proof (rule ccontr)
      assume "s \<noteq> signo"
      with "1.prems"(1) have "signo \<le> signo \<and> signo < s" by simp
      with "1.prems"(4) have "signal_map w signo \<noteq> None" by blast
      with True show False by simp
    qed
    then show ?thesis
      by (simp add: scan_unfold_free [OF le True])
  next
    case False
    with "1.prems" have lt: "signo + 1 \<le> s" by (cases "s = signo") auto
    have free: "signal_map (emit [MapFind signo] w) s = None" using "1.prems" by simp
    have before: "\<forall>s'. signo + 1 \<le> s' \<and> s' < s \<longrightarrow>
                        signal_map (emit [MapFind signo] w) s' \<noteq> None"
      using "1.prems" by simp
    have up: "[signo..s] = signo # [signo + 1..s]"
      using lt by (simp add: upto_rec1)
    from "1.IH" [OF le False lt "1.prems"(2) free before] show ?thesis
      by (simp add: scan_unfold_taken [OF le False] up)
  qed
qed

text \<open>When the pool is not exhausted there is a first free signal number.\<close>

lemma first_free_exists:
  assumes "\<not> pool_exhausted lo hi w"
  shows "\<exists>s. lo \<le> s \<and> s \<le> hi \<and> signal_map w s = None \<and>
             (\<forall>s'. lo \<le> s' \<and> s' < s \<longrightarrow> signal_map w s' \<noteq> None)"
proof -
  from assms obtain s0 where s0: "lo \<le> s0" "s0 \<le> hi" "signal_map w s0 = None"
    by (auto simp: pool_exhausted_iff)
  define P where "P k \<longleftrightarrow> signal_map w (lo + int k) = None" for k
  have P0: "P (nat (s0 - lo))" using s0 by (simp add: P_def)
  have L: "P (LEAST k. P k)" using P0 by (rule LeastI)
  have M: "\<not> P k" if "k < (LEAST k. P k)" for k using that by (rule not_less_Least)
  have le: "(LEAST k. P k) \<le> nat (s0 - lo)"
    using P0 by (rule Least_le)
  let ?s = "lo + int (LEAST k. P k)"
  have "lo \<le> ?s" by simp
  moreover have "?s \<le> hi" using le s0 by linarith
  moreover have "signal_map w ?s = None" using L by (simp add: P_def)
  moreover have "signal_map w s' \<noteq> None" if "lo \<le> s'" "s' < ?s" for s'
  proof -
    have "nat (s' - lo) < (LEAST k. P k)" using that by linarith
    from M [OF this] that show ?thesis by (simp add: P_def)
  qed
  ultimately show ?thesis by blast
qed


section \<open>The mutex and the critical sections\<close>

lemma lock_guard_held: "signal_mutex w \<Longrightarrow> lock_guard w = None"
  by (simp add: lock_guard_def)

lemma lock_guard_free:
  "\<not> signal_mutex w \<Longrightarrow> lock_guard w = Some (emit [Lock] (w\<lparr>signal_mutex := True\<rparr>))"
  by (simp add: lock_guard_def)

lemma lock_guard_Some: "lock_guard w = Some w' \<Longrightarrow> signal_mutex w' \<and> \<not> signal_mutex w"
  by (auto simp: lock_guard_def split: if_splits)

lemma release_guard_simps [simp]:
  "signal_map (release_guard w) = signal_map w"
  "\<not> signal_mutex (release_guard w)"
  "objects (release_guard w) = objects w"
  "sems (release_guard w) = sems w"
  "timers (release_guard w) = timers w"
  "trace (release_guard w) = trace w @ [Unlock]"
  by (simp_all add: release_guard_def)

text \<open>Inside the constructor's critical section, and inside a handler's, the mutex is held.\<close>

lemma ctor_reserve_holds_mutex:
  "ctor_reserve lo hi this w = Some (s, wl) \<Longrightarrow> signal_mutex wl"
proof -
  assume "ctor_reserve lo hi this w = Some (s, wl)"
  then obtain w0 where l: "lock_guard (emit [SemInit this True] (w\<lparr>sems := (sems w)(this \<mapsto> 0)\<rparr>)) = Some w0"
    and sc: "scan lo hi this w0 = (s, wl)"
    by (auto simp: ctor_reserve_def)
  from sc have "wl = snd (scan lo hi this w0)" by simp
  with scan_frame [of lo hi this w0] lock_guard_Some [OF l] show ?thesis by simp
qed

lemma signalHandler_critical_holds_mutex:
  "signalHandler_critical signo w = Some wl \<Longrightarrow> signal_mutex wl"
  by (auto simp: signalHandler_critical_def dest: lock_guard_Some)

section \<open>The signal handler\<close>

lemma sem_post_simps [simp]:
  "signal_map (sem_post s w) = signal_map w"
  "signal_mutex (sem_post s w) = signal_mutex w"
  "objects (sem_post s w) = objects w"
  "timers (sem_post s w) = timers w"
  "trace (sem_post s w) = trace w @ [SemPost s]"
  "sems (sem_post s w) =
     (case sems w s of None \<Rightarrow> sems w | Some n \<Rightarrow> (sems w)(s \<mapsto> Suc n))"
  by (simp_all add: sem_post_def split: option.splits)

lemma new_events_append [simp]: "trace w' = trace w @ es \<Longrightarrow> new_events w w' = es"
  by (simp add: new_events_def)

lemma signalHandler_held: "signal_mutex w \<Longrightarrow> signalHandler signo w = None"
  by (simp add: signalHandler_def lock_guard_held)

lemma signalHandler_returns_iff: "signalHandler signo w \<noteq> None \<longleftrightarrow> \<not> signal_mutex w"
  by (simp add: signalHandler_def lock_guard_def Let_def)

lemma signalHandler_Some:
  assumes "signalHandler signo w = Some w'"
  shows "\<not> signal_mutex w" and "\<not> signal_mutex w'"
    and "signal_map w' = signal_map w"
    and "objects w' = objects w"
    and "timers w' = timers w"
    and "trace w' =
           trace w @ [Lock, MapFind signo] @
             (case signal_map w signo of
                None \<Rightarrow> []
              | Some p \<Rightarrow> if p \<noteq> nullptr then [SemPost p] else []) @ [Unlock]"
    and "sems w' =
           (case signal_map w signo of
              None \<Rightarrow> sems w
            | Some p \<Rightarrow>
                if p \<noteq> nullptr then
                  (case sems w p of None \<Rightarrow> sems w | Some n \<Rightarrow> (sems w)(p \<mapsto> Suc n))
                else sems w)"
  using assms
  by (auto simp: signalHandler_def lock_guard_def Let_def split: if_splits option.splits)

lemma signalHandler_new_events:
  assumes "signalHandler signo w = Some w'"
  shows "new_events w w' =
           [Lock, MapFind signo] @
             (case signal_map w signo of
                None \<Rightarrow> []
              | Some p \<Rightarrow> if p \<noteq> nullptr then [SemPost p] else []) @ [Unlock]"
  using signalHandler_Some(6) [OF assms] by simp

lemma signalHandler_posts_only_to_registered:
  assumes "signalHandler signo w = Some w'" "SemPost q \<in> set (new_events w w')"
  shows "signal_map w signo = Some q \<and> q \<noteq> nullptr"
  using assms(2) unfolding signalHandler_new_events [OF assms(1)]
  by (cases "signal_map w signo") (simp_all split: if_splits)

lemma signalHandler_sems_changed:
  assumes "signalHandler signo w = Some w'" "sems w' q \<noteq> sems w q"
  shows "signal_map w signo = Some q"
  using assms(2) unfolding signalHandler_Some(7) [OF assms(1)]
  by (cases "signal_map w signo") (simp_all split: if_splits option.splits)

lemma signalHandler_no_callback:
  assumes "signalHandler signo w = Some w'"
  shows "Callback q \<notin> set (new_events w w')"
  unfolding signalHandler_new_events [OF assms]
  by (cases "signal_map w signo") simp_all

lemma signalHandler_miss:
  assumes "signalHandler signo w = Some w'"
    and "signal_map w signo = None \<or> signal_map w signo = Some nullptr"
  shows "sems w' = sems w"
    and "trace w' = trace w @ [Lock, MapFind signo, Unlock]"
  using assms(2) signalHandler_Some(6,7) [OF assms(1)] by auto

text \<open>
  Claim C10, as stated, fails. On a signal number with no registry entry the handler
  still acquires and releases \<^verbatim>\<open>signal_mutex_\<close>, which is more than a lookup. And it is
  not total: delivered to a thread that is inside the constructor's critical section,
  where the mutex is held, the handler does not return, though the signal number is
  unknown to the registry.
\<close>

theorem signalHandler_miss_takes_mutex_and_can_block:
  "signal_map world1 36 = None \<and>
   map_option trace (signalHandler 36 world1) = Some [Lock, MapFind 36, Unlock] \<and>
   map_option fst (ctor_reserve 34 35 200 world1) = Some 35 \<and>
   map_option (signal_mutex \<circ> snd) (ctor_reserve 34 35 200 world1) = Some True \<and>
   map_option (entry_at 36 \<circ> snd) (ctor_reserve 34 35 200 world1) = Some None \<and>
   Option.bind (ctor_reserve 34 35 200 world1) (signalHandler 36 \<circ> snd) = None"
  by (simp add: signalHandler_def ctor_reserve_def lock_guard_def release_guard_def scan.simps
        world1_def emit_def Let_def entry_at_def)

text \<open>
  Claim C10, amended. When \<^verbatim>\<open>signal_mutex_\<close> is free and the registry has no entry for
  the signal number, or the entry holds the null pointer, the handler returns, and it
  changes no semaphore, object, registry entry or timer: it acquires the mutex, looks the
  number up and releases the mutex. Whenever the handler returns, a wake has been posted
  only to the instance registered under the signal number, only that instance's
  semaphore can have changed, and no callback has been invoked. When the mutex is held
  the handler does not return, whatever the signal number.
\<close>

theorem signalHandler_lookup_failure_is_noop_when_mutex_free:
  "(\<not> signal_mutex w \<and> (signal_map w signo = None \<or> signal_map w signo = Some nullptr) \<longrightarrow>
      (\<exists>w'. signalHandler signo w = Some w' \<and>
            sems w' = sems w \<and> objects w' = objects w \<and> signal_map w' = signal_map w \<and>
            timers w' = timers w \<and> signal_mutex w' = signal_mutex w \<and>
            trace w' = trace w @ [Lock, MapFind signo, Unlock])) \<and>
   (\<forall>w' q. signalHandler signo w = Some w' \<and> SemPost q \<in> set (new_events w w') \<longrightarrow>
        signal_map w signo = Some q \<and> q \<noteq> nullptr) \<and>
   (\<forall>w' q. signalHandler signo w = Some w' \<and> sems w' q \<noteq> sems w q \<longrightarrow>
        signal_map w signo = Some q) \<and>
   (\<forall>w' q. signalHandler signo w = Some w' \<longrightarrow> Callback q \<notin> set (new_events w w')) \<and>
   (signal_mutex w \<longrightarrow> signalHandler signo w = None)"
proof (intro conjI allI impI)
  assume a: "\<not> signal_mutex w \<and>
             (signal_map w signo = None \<or> signal_map w signo = Some nullptr)"
  then obtain w' where w': "signalHandler signo w = Some w'"
    using signalHandler_returns_iff [of signo w] by auto
  from a have miss: "signal_map w signo = None \<or> signal_map w signo = Some nullptr" by simp
  from a signalHandler_Some [OF w'] signalHandler_miss [OF w' miss]
  have "sems w' = sems w \<and> objects w' = objects w \<and> signal_map w' = signal_map w \<and>
        timers w' = timers w \<and> signal_mutex w' = signal_mutex w \<and>
        trace w' = trace w @ [Lock, MapFind signo, Unlock]"
    by simp
  with w' show "\<exists>w'. signalHandler signo w = Some w' \<and>
            sems w' = sems w \<and> objects w' = objects w \<and> signal_map w' = signal_map w \<and>
            timers w' = timers w \<and> signal_mutex w' = signal_mutex w \<and>
            trace w' = trace w @ [Lock, MapFind signo, Unlock]"
    by blast
next
  fix w' q
  assume "signalHandler signo w = Some w' \<and> SemPost q \<in> set (new_events w w')"
  then show "signal_map w signo = Some q" and "q \<noteq> nullptr"
    using signalHandler_posts_only_to_registered [of signo w w' q] by simp_all
next
  fix w' q
  assume "signalHandler signo w = Some w' \<and> sems w' q \<noteq> sems w q"
  then show "signal_map w signo = Some q"
    using signalHandler_sems_changed [of signo w w' q] by simp
next
  fix w' q
  assume "signalHandler signo w = Some w'"
  then show "Callback q \<notin> set (new_events w w')" by (rule signalHandler_no_callback)
next
  assume "signal_mutex w"
  then show "signalHandler signo w = None" by (rule signalHandler_held)
qed

theorem signalHandler_lookup_failure_witness:
  "\<not> signal_mutex world1 \<and> signal_map world1 35 = None \<and>
   map_option trace (signalHandler 35 world1) = Some [Lock, MapFind 35, Unlock] \<and>
   map_option sems (signalHandler 35 world1) = Some (sems world1) \<and>
   map_option (\<lambda>w'. SemPost 100 \<in> set (new_events world1 w')) (signalHandler 34 world1)
     = Some True \<and>
   signal_map world1 34 = Some 100 \<and>
   signal_mutex (world1\<lparr>signal_mutex := True\<rparr>) \<and>
   signalHandler 35 (world1\<lparr>signal_mutex := True\<rparr>) = None"
proof -
  have free: "\<not> signal_mutex world1" and none: "signal_map world1 35 = None"
    by (simp_all add: world1_def)
  note t35 = signalHandler_lookup_failure_is_noop_when_mutex_free [of world1 35]
  note t34 = signalHandler_lookup_failure_is_noop_when_mutex_free [of world1 34]
  note th = signalHandler_lookup_failure_is_noop_when_mutex_free
              [of "world1\<lparr>signal_mutex := True\<rparr>" 35]
  from t35 [THEN conjunct1, rule_format, OF conjI [OF free disjI1 [OF none]]]
  obtain w' where w': "signalHandler 35 world1 = Some w'" "sems w' = sems world1"
    "trace w' = trace world1 @ [Lock, MapFind 35, Unlock]"
    by blast
  obtain w'' where w'': "signalHandler 34 world1 = Some w''"
    using signalHandler_returns_iff [of 34 world1] free by auto
  have post: "SemPost 100 \<in> set (new_events world1 w'')"
    using signalHandler_new_events [OF w''] by (simp add: nullptr_def)
  from t34 [THEN conjunct2, THEN conjunct1, rule_format, OF conjI [OF w'' post]]
  have reg: "signal_map world1 34 = Some 100" by simp
  have held: "signalHandler 35 (world1\<lparr>signal_mutex := True\<rparr>) = None"
    using th [THEN conjunct2, THEN conjunct2, THEN conjunct2, THEN conjunct2] by simp
  from free none w' w'' post reg held show ?thesis by simp
qed

text \<open>
  Claim C2, as stated, fails: every invocation of the handler acquires
  \<^verbatim>\<open>signal_mutex_\<close>, a blocking \<^verbatim>\<open>std::mutex\<close>, before the lookup; and delivered inside the
  constructor's critical section it blocks on that mutex for good.
\<close>

theorem signalHandler_takes_the_mutex:
  "map_option trace (signalHandler 34 world1) = Some [Lock, MapFind 34, SemPost 100, Unlock] \<and>
   Lock \<in> set (case signalHandler 34 world1 of None \<Rightarrow> [] | Some w' \<Rightarrow> trace w') \<and>
   map_option (signal_mutex \<circ> snd) (ctor_reserve 34 35 200 world1) = Some True \<and>
   Option.bind (ctor_reserve 34 35 200 world1) (signalHandler 34 \<circ> snd) = None"
  by (simp add: signalHandler_def ctor_reserve_def lock_guard_def release_guard_def scan.simps
        sem_post_def world1_def emit_def nullptr_def Let_def)

text \<open>
  Claim C2, amended. Every invocation of the handler begins by acquiring
  \<^verbatim>\<open>signal_mutex_\<close>. When the mutex is held, as it is inside the constructor's critical
  section and inside another invocation of the handler, the handler does not return and
  does nothing else. When the mutex is free the handler returns having done exactly this,
  in this order: acquire the mutex, look the signal number up with \<^verbatim>\<open>find\<close>, post to the
  semaphore of the registered instance when there is one and its pointer is not null,
  release the mutex. It adds no registry entry, creates no semaphore and touches no object
  or timer.
\<close>

theorem signalHandler_blocks_or_locks_finds_posts_unlocks:
  "(signal_mutex w \<longrightarrow> signalHandler signo w = None) \<and>
   (\<forall>lo hi this s wl. ctor_reserve lo hi this w = Some (s, wl) \<longrightarrow>
        signalHandler signo wl = None) \<and>
   (\<forall>signo' wl. signalHandler_critical signo' w = Some wl \<longrightarrow> signalHandler signo wl = None) \<and>
   (\<not> signal_mutex w \<longrightarrow>
      (\<exists>w'. signalHandler signo w = Some w' \<and>
            trace w' =
              trace w @ [Lock, MapFind signo] @
                (case signal_map w signo of
                   None \<Rightarrow> []
                 | Some p \<Rightarrow> if p \<noteq> nullptr then [SemPost p] else []) @ [Unlock] \<and>
            signal_map w' = signal_map w \<and>
            objects w' = objects w \<and>
            timers w' = timers w \<and>
            dom (sems w') = dom (sems w) \<and>
            \<not> signal_mutex w'))"
proof (intro conjI allI impI)
  assume "signal_mutex w"
  then show "signalHandler signo w = None" by (rule signalHandler_held)
next
  fix lo hi this s wl
  assume "ctor_reserve lo hi this w = Some (s, wl)"
  then have "signal_mutex wl" by (rule ctor_reserve_holds_mutex)
  then show "signalHandler signo wl = None" by (rule signalHandler_held)
next
  fix signo' wl
  assume "signalHandler_critical signo' w = Some wl"
  then have "signal_mutex wl" by (rule signalHandler_critical_holds_mutex)
  then show "signalHandler signo wl = None" by (rule signalHandler_held)
next
  assume "\<not> signal_mutex w"
  then obtain w' where w': "signalHandler signo w = Some w'"
    using signalHandler_returns_iff [of signo w] by auto
  note s = signalHandler_Some [OF w']
  have "dom (sems w') = dom (sems w)"
    unfolding s(7) by (auto split: option.splits if_splits)
  with w' s(2-6) show "\<exists>w'. signalHandler signo w = Some w' \<and>
            trace w' =
              trace w @ [Lock, MapFind signo] @
                (case signal_map w signo of
                   None \<Rightarrow> []
                 | Some p \<Rightarrow> if p \<noteq> nullptr then [SemPost p] else []) @ [Unlock] \<and>
            signal_map w' = signal_map w \<and>
            objects w' = objects w \<and>
            timers w' = timers w \<and>
            dom (sems w') = dom (sems w) \<and>
            \<not> signal_mutex w'"
    by blast
qed

theorem signalHandler_mutex_witness:
  "\<not> signal_mutex world1 \<and>
   map_option trace (signalHandler 34 world1) = Some [Lock, MapFind 34, SemPost 100, Unlock] \<and>
   map_option fst (ctor_reserve 34 35 200 world1) = Some 35 \<and>
   Option.bind (ctor_reserve 34 35 200 world1) (signalHandler 34 \<circ> snd) = None \<and>
   signalHandler_critical 35 world1 \<noteq> None \<and>
   Option.bind (signalHandler_critical 35 world1) (signalHandler 34) = None \<and>
   signal_mutex (world1\<lparr>signal_mutex := True\<rparr>) \<and>
   signalHandler 34 (world1\<lparr>signal_mutex := True\<rparr>) = None"
proof -
  note t = signalHandler_blocks_or_locks_finds_posts_unlocks [of world1 34]
  have free: "\<not> signal_mutex world1" by simp
  obtain s wl where r: "ctor_reserve 34 35 200 world1 = Some (s, wl)"
    by (cases "ctor_reserve 34 35 200 world1")
       (auto simp: ctor_reserve_def lock_guard_def world1_def)
  have s: "map_option fst (ctor_reserve 34 35 200 world1) = Some 35"
    by (simp add: ctor_reserve_def lock_guard_def scan.simps world1_def emit_def)
  obtain wc where c: "signalHandler_critical 35 world1 = Some wc"
    by (cases "signalHandler_critical 35 world1")
       (auto simp: signalHandler_critical_def lock_guard_def world1_def)
  from t [THEN conjunct2, THEN conjunct1, rule_format, OF r]
  have 1: "Option.bind (ctor_reserve 34 35 200 world1) (signalHandler 34 \<circ> snd) = None"
    by (simp add: r)
  from t [THEN conjunct2, THEN conjunct2, THEN conjunct1, rule_format, OF c]
  have 2: "Option.bind (signalHandler_critical 35 world1) (signalHandler 34) = None"
    by (simp add: c)
  from t [THEN conjunct2, THEN conjunct2, THEN conjunct2, rule_format, OF free]
  obtain w' where w': "signalHandler 34 world1 = Some w'"
    "trace w' = trace world1 @ [Lock, MapFind 34] @
       (case signal_map world1 34 of None \<Rightarrow> []
        | Some p \<Rightarrow> if p \<noteq> nullptr then [SemPost p] else []) @ [Unlock]"
    by blast
  then have 3: "map_option trace (signalHandler 34 world1) =
                  Some [Lock, MapFind 34, SemPost 100, Unlock]"
    by (simp add: nullptr_def)
  have 4: "signalHandler 34 (world1\<lparr>signal_mutex := True\<rparr>) = None"
    using signalHandler_blocks_or_locks_finds_posts_unlocks
            [of "world1\<lparr>signal_mutex := True\<rparr>" 34, THEN conjunct1]
    by simp
  from free s c 1 2 3 4 show ?thesis by simp
qed

section \<open>The worker thread\<close>

lemma stop_stopped:
  assumes "objects w this = Some t" "\<not> is_running t"
  shows "stop ok this w = (Ok, w)"
proof -
  have "t\<lparr>is_running := False\<rparr> = t" using assms(2) by simp
  then show ?thesis
    using assms by (simp add: stop_def exchange_def world_upd_objects_same)
qed

lemma stop_running:
  assumes "objects w this = Some t" "is_running t"
  shows "fst (stop ok this w) = (if ok then Ok else Threw DisarmFailed)"
    and "snd (stop ok this w) =
           snd (timer_settime ok (timer_id t) (0, 0)
                  (w\<lparr>objects := (objects w)(this \<mapsto> t\<lparr>is_running := False\<rparr>)\<rparr>))"
  using assms by (simp_all add: stop_def exchange_def disarmTimer_live)

lemma worker_iteration_wake:
  assumes "objects w this = Some t" "worker_thread t = Waiting" "sems w this = Some (Suc n)"
  shows "worker_iteration Posted this w =
           (if \<not> is_running t then
              (emit [SemWait this] (w\<lparr>sems := (sems w)(this \<mapsto> n)\<rparr>))
                \<lparr>objects := (objects w)(this \<mapsto> t\<lparr>worker_thread := Finished\<rparr>)\<rparr>
            else emit (SemWait this # (if callback t \<noteq> None then [Callback this] else []))
                   (w\<lparr>sems := (sems w)(this \<mapsto> n)\<rparr>))"
  using assms by (simp add: worker_iteration_def sem_wait_def Let_def emit_def)

lemma worker_iteration_interrupted:
  assumes "objects w this = Some t" "worker_thread t = Waiting"
  shows "worker_iteration Interrupted this w =
           (if \<not> is_running t then
              (emit [SemWaitEINTR this] w)
                \<lparr>objects := (objects w)(this \<mapsto> t\<lparr>worker_thread := Finished\<rparr>)\<rparr>
            else emit (SemWaitEINTR this # (if callback t \<noteq> None then [Callback this] else []))
                   w)"
  using assms by (simp add: worker_iteration_def sem_wait_def Let_def emit_def)

lemma worker_iteration_not_waiting:
  assumes "objects w this = Some t" "worker_thread t \<noteq> Waiting"
  shows "worker_iteration k this w = w"
  using assms by (simp add: worker_iteration_def)

lemma workerThread_not_waiting:
  assumes "objects w this = Some t" "worker_thread t \<noteq> Waiting"
  shows "workerThread this w = w"
  using assms by (simp add: workerThread.simps runnable_def)

lemma worker_iteration_mutex [simp]:
  "signal_mutex (worker_iteration k this w) = signal_mutex w"
  by (cases k)
     (auto simp: worker_iteration_def sem_wait_def Let_def split: option.splits nat.splits)

text \<open>The caller's operations leave the mutex alone.\<close>

lemma caller_ops_mutex [simp]:
  "signal_mutex (snd (start ok this w)) = signal_mutex w"
  "signal_mutex (snd (stop ok this w)) = signal_mutex w"
  "signal_mutex (snd (changeTimeout ok d this w)) = signal_mutex w"
  by (auto simp: start_def stop_def changeTimeout_def exchange_def armTimer_def
        disarmTimer_def Let_def split_beta split: option.splits)

text \<open>From a state in which the mutex is free, every schedule runs to its end.\<close>

lemma apply_action_returns:
  "\<not> signal_mutex w \<Longrightarrow>
     \<exists>w'. apply_action this a w = Some w' \<and> \<not> signal_mutex w'"
proof (cases a)
  case (Signal signo)
  assume free: "\<not> signal_mutex w"
  then obtain w' where w': "signalHandler signo w = Some w'"
    using signalHandler_returns_iff [of signo w] by auto
  with Signal signalHandler_Some(2) [OF w'] show ?thesis by simp
qed simp_all

lemma run_returns:
  "\<not> signal_mutex w \<Longrightarrow> \<exists>w'. run this as w = Some w' \<and> \<not> signal_mutex w'"
proof (induction as arbitrary: w)
  case Nil
  then show ?case by simp
next
  case (Cons a as)
  from apply_action_returns [OF Cons.prems, of this a]
  obtain w1 where 1: "apply_action this a w = Some w1" "\<not> signal_mutex w1" by blast
  from Cons.IH [OF 1(2)] 1(1) show ?case by simp
qed

text \<open>Actions on a finished worker\<close>

lemma apply_action_finished:
  assumes "finished this w" and "apply_action this a w = Some w'"
  shows "finished this w' \<and>
         (\<exists>es. trace w' = trace w @ es \<and> (\<forall>q. Callback q \<notin> set es))"
proof -
  from assms(1) obtain t where t: "objects w this = Some t" "worker_thread t = Finished"
    by (auto simp: finished_def split: option.splits)
  show ?thesis
  proof (cases a)
    case (Start ok)
    show ?thesis
    proof (cases "is_running t")
      case True
      with t Start assms show ?thesis by (auto simp: start_running)
    next
      case False
      with t Start assms(2) show ?thesis by (auto simp: start_stopped finished_def)
    qed
  next
    case (Stop ok)
    show ?thesis
    proof (cases "is_running t")
      case True
      with t Stop assms(2) show ?thesis by (auto simp: stop_running finished_def)
    next
      case False
      with t Stop assms show ?thesis by (auto simp: stop_stopped)
    qed
  next
    case (ChangeTimeout ok d)
    show ?thesis
    proof (cases "is_running t")
      case True
      with t ChangeTimeout assms(2) show ?thesis
        by (auto simp: changeTimeout_running finished_def)
    next
      case False
      with t ChangeTimeout assms(2) show ?thesis
        by (auto simp: changeTimeout_stopped finished_def)
    qed
  next
    case (Signal signo)
    with assms(2) have h: "signalHandler signo w = Some w'" by simp
    have "\<forall>q. Callback q \<notin> set (new_events w w')"
      using signalHandler_no_callback [OF h] by blast
    moreover have "trace w' = trace w @ new_events w w'"
      using signalHandler_Some(6) [OF h] by (simp add: new_events_def)
    moreover have "finished this w'"
      using assms(1) signalHandler_Some(4) [OF h] by (simp add: finished_def)
    ultimately show ?thesis by blast
  next
    case Worker
    with t assms show ?thesis by (auto simp: worker_iteration_not_waiting)
  next
    case WorkerEINTR
    with t assms show ?thesis by (auto simp: worker_iteration_not_waiting)
  qed
qed

lemma run_finished:
  "finished this w \<Longrightarrow> run this as w = Some w' \<Longrightarrow>
     finished this w' \<and>
     (\<exists>es. trace w' = trace w @ es \<and> (\<forall>q. Callback q \<notin> set es))"
proof (induction as arbitrary: w)
  case Nil
  then show ?case by simp
next
  case (Cons a as)
  from Cons.prems(2) obtain w1 where w1: "apply_action this a w = Some w1"
    and r: "run this as w1 = Some w'"
    by (auto split: option.splits)
  from apply_action_finished [OF Cons.prems(1) w1]
  obtain es1 where 1: "finished this w1" "trace w1 = trace w @ es1"
    "\<forall>q. Callback q \<notin> set es1"
    by blast
  from Cons.IH [OF 1(1) r]
  obtain es2 where 2: "finished this w'" "trace w' = trace w1 @ es2"
    "\<forall>q. Callback q \<notin> set es2"
    by blast
  from 1 2 have "trace w' = trace w @ (es1 @ es2)"
    "\<forall>q. Callback q \<notin> set (es1 @ es2)" by simp_all
  with 2(1) show ?case by blast
qed

lemmas eval_defs =
  world1_def timer1_def start_def stop_def exchange_def armTimer_def
  disarmTimer_def timer_settime_def signalHandler_def lock_guard_def release_guard_def
  sem_post_def worker_iteration_def sem_wait_def
  emit_def nullptr_def Let_def signed_divide_int_def signed_modulo_int_def

text \<open>
  Claim C1, as stated, fails. A notification delivered after \<open>stop\<close> finds the instance
  live and stopped, with its worker waiting; the worker wakes, reads the flag as clear and
  leaves its loop, though nothing destroys the instance. A later \<open>start\<close> arms the timer
  and its expiry posts the semaphore, but no thread is left to invoke the callback: the
  trace of the whole schedule holds no callback.
\<close>

theorem worker_exits_on_wake_while_merely_stopped:
  "map_option (map_option is_running \<circ> object_at 100)
     (run 100 [Start True, Stop True, Signal 34] world1) = Some (Some False) \<and>
   map_option (entry_at 34) (run 100 [Start True, Stop True, Signal 34] world1)
     = Some (Some 100) \<and>
   map_option (map_option worker_thread \<circ> object_at 100)
     (run 100 [Start True, Stop True, Signal 34] world1) = Some (Some Waiting) \<and>
   map_option (map_option worker_thread \<circ> object_at 100)
     (run 100 [Start True, Stop True, Signal 34, Worker] world1) = Some (Some Finished) \<and>
   map_option (entry_at 34)
     (run 100 [Start True, Stop True, Signal 34, Worker] world1) = Some (Some 100) \<and>
   map_option trace
     (run 100 [Start True, Stop True, Signal 34, Worker, Start True, Signal 34, Worker, Worker]
        world1) =
     Some [TimerSettime 7 (0, 50) True, TimerSettime 7 (0, 0) True,
           Lock, MapFind 34, SemPost 100, Unlock, SemWait 100,
           TimerSettime 7 (0, 50) True, Lock, MapFind 34, SemPost 100, Unlock]"
  by (simp add: eval_defs object_at_def entry_at_def)

text \<open>
  Claim C1, amended. At every return of \<^verbatim>\<open>sem_wait\<close>, whether it consumed a post or was
  interrupted by a handler running on the worker thread, the worker reads the running
  flag. When it is set, the callback is invoked and the worker waits again. When it is
  clear, whether the instance is being destroyed or is only stopped, the worker leaves
  its loop without invoking the callback. Once the worker has left its loop it stays out
  of it, and no schedule of starts, stops, timeout changes, signals and wakes invokes a
  callback again.
\<close>

theorem worker_rechecks_flag_at_every_wake_and_leaves_loop_when_clear:
  assumes "objects w this = Some t"
  shows "(worker_thread t = Waiting \<and> sems w this = Some (Suc n) \<and> is_running t \<longrightarrow>
            objects (worker_iteration Posted this w) = objects w \<and>
            sems (worker_iteration Posted this w) = (sems w)(this \<mapsto> n) \<and>
            new_events w (worker_iteration Posted this w) =
              SemWait this # (if callback t \<noteq> None then [Callback this] else [])) \<and>
         (worker_thread t = Waiting \<and> sems w this = Some (Suc n) \<and> \<not> is_running t \<longrightarrow>
            objects (worker_iteration Posted this w) =
              (objects w)(this \<mapsto> t\<lparr>worker_thread := Finished\<rparr>) \<and>
            sems (worker_iteration Posted this w) = (sems w)(this \<mapsto> n) \<and>
            new_events w (worker_iteration Posted this w) = [SemWait this]) \<and>
         (worker_thread t = Waiting \<and> is_running t \<longrightarrow>
            objects (worker_iteration Interrupted this w) = objects w \<and>
            sems (worker_iteration Interrupted this w) = sems w \<and>
            new_events w (worker_iteration Interrupted this w) =
              SemWaitEINTR this # (if callback t \<noteq> None then [Callback this] else [])) \<and>
         (worker_thread t = Waiting \<and> \<not> is_running t \<longrightarrow>
            objects (worker_iteration Interrupted this w) =
              (objects w)(this \<mapsto> t\<lparr>worker_thread := Finished\<rparr>) \<and>
            sems (worker_iteration Interrupted this w) = sems w \<and>
            new_events w (worker_iteration Interrupted this w) = [SemWaitEINTR this]) \<and>
         (worker_thread t = Finished \<longrightarrow>
            (\<forall>as. (\<not> signal_mutex w \<longrightarrow> run this as w \<noteq> None) \<and>
                  (\<forall>w'. run this as w = Some w' \<longrightarrow>
                     finished this w' \<and> (\<forall>q. Callback q \<notin> set (new_events w w')))))"
proof (intro conjI impI allI)
  fix as
  assume "\<not> signal_mutex w"
  then show "run this as w \<noteq> None" using run_returns [of w this as] by auto
next
  fix as w' q
  assume "worker_thread t = Finished" and r: "run this as w = Some w'"
  with assms have f: "finished this w" by (simp add: finished_def)
  from run_finished [OF f r]
  show "finished this w'" and "Callback q \<notin> set (new_events w w')"
    by auto
qed (simp_all add: worker_iteration_wake [OF assms] worker_iteration_interrupted [OF assms])

theorem worker_witness:
  "map_option (\<lambda>w. objects w 100) (run 100 [Start True, Signal 34] world1)
     = Some (Some (timer1\<lparr>is_running := True\<rparr>)) \<and>
   worker_thread (timer1\<lparr>is_running := True\<rparr>) = Waiting \<and>
   map_option (\<lambda>w. sems w 100) (run 100 [Start True, Signal 34] world1) = Some (Some (Suc 0)) \<and>
   is_running (timer1\<lparr>is_running := True\<rparr>) \<and>
   map_option (\<lambda>w. new_events w (worker_iteration Posted 100 w))
     (run 100 [Start True, Signal 34] world1) = Some [SemWait 100, Callback 100] \<and>
   map_option (\<lambda>w. new_events w (worker_iteration Interrupted 100 w))
     (run 100 [Start True, Signal 34] world1) = Some [SemWaitEINTR 100, Callback 100] \<and>
   objects world1 100 = Some timer1 \<and> worker_thread timer1 = Waiting \<and>
   \<not> is_running timer1 \<and>
   objects (worker_iteration Interrupted 100 world1) 100 =
     Some (timer1\<lparr>worker_thread := Finished\<rparr>) \<and>
   worker_thread (timer1\<lparr>worker_thread := Finished\<rparr>) = Finished \<and>
   \<not> signal_mutex (worker_iteration Interrupted 100 world1) \<and>
   run 100 [Start True, Signal 34, Worker, WorkerEINTR] (worker_iteration Interrupted 100 world1)
     \<noteq> None \<and>
   map_option (\<lambda>w'. Callback 100 \<in> set (new_events (worker_iteration Interrupted 100 world1) w'))
     (run 100 [Start True, Signal 34, Worker, WorkerEINTR]
        (worker_iteration Interrupted 100 world1)) = Some False"
proof -
  obtain wa where wa: "run 100 [Start True, Signal 34] world1 = Some wa"
    and a: "objects wa 100 = Some (timer1\<lparr>is_running := True\<rparr>)"
    and a2: "sems wa 100 = Some (Suc 0)"
    by (simp add: eval_defs)
  let ?wc = "worker_iteration Interrupted 100 world1"
  have b: "objects world1 100 = Some timer1" by simp
  have c: "objects ?wc 100 = Some (timer1\<lparr>worker_thread := Finished\<rparr>)"
    by (simp add: eval_defs)
  have free: "\<not> signal_mutex ?wc" by simp
  note ta = worker_rechecks_flag_at_every_wake_and_leaves_loop_when_clear [OF a, of 0]
  note tb = worker_rechecks_flag_at_every_wake_and_leaves_loop_when_clear [OF b, of 0]
  note tc = worker_rechecks_flag_at_every_wake_and_leaves_loop_when_clear
              [OF c, THEN conjunct2, THEN conjunct2, THEN conjunct2, THEN conjunct2,
               rule_format, of "[Start True, Signal 34, Worker, WorkerEINTR]"]
  have 1: "new_events wa (worker_iteration Posted 100 wa) = [SemWait 100, Callback 100]"
    and 2: "new_events wa (worker_iteration Interrupted 100 wa) = [SemWaitEINTR 100, Callback 100]"
    using ta a2 by simp_all
  have 3: "objects ?wc 100 = Some (timer1\<lparr>worker_thread := Finished\<rparr>)"
    using tb by simp
  have fin: "worker_thread (timer1\<lparr>worker_thread := Finished\<rparr>) = Finished" by simp
  from tc [OF fin] free
  have 4: "run 100 [Start True, Signal 34, Worker, WorkerEINTR] ?wc \<noteq> None"
    and 5: "\<And>w' q. run 100 [Start True, Signal 34, Worker, WorkerEINTR] ?wc = Some w' \<Longrightarrow>
              Callback q \<notin> set (new_events ?wc w')"
    by blast+
  from 4 obtain w' where w': "run 100 [Start True, Signal 34, Worker, WorkerEINTR] ?wc = Some w'"
    by blast
  from 5 [OF w'] have 6: "Callback 100 \<notin> set (new_events ?wc w')" .
  show ?thesis using wa a a2 b 1 2 3 4 w' 6 free by simp
qed

section \<open>The destructor\<close>

lemma workerThread_leaves_loop:
  assumes "objects w this = Some t" "worker_thread t = Waiting" "\<not> is_running t"
    "sems w this = Some (Suc n)"
  shows "workerThread this w =
           (emit [SemWait this] (w\<lparr>sems := (sems w)(this \<mapsto> n)\<rparr>))
             \<lparr>objects := (objects w)(this \<mapsto> t\<lparr>worker_thread := Finished\<rparr>)\<rparr>"
proof -
  let ?w' = "(emit [SemWait this] (w\<lparr>sems := (sems w)(this \<mapsto> n)\<rparr>))
               \<lparr>objects := (objects w)(this \<mapsto> t\<lparr>worker_thread := Finished\<rparr>)\<rparr>"
  have r: "runnable this w" using assms by (simp add: runnable_def)
  have i: "worker_iteration Posted this w = ?w'"
    using assms by (simp add: worker_iteration_wake)
  have "workerThread this ?w' = ?w'"
    by (rule workerThread_not_waiting [where t = "t\<lparr>worker_thread := Finished\<rparr>"]) simp_all
  with r i show ?thesis
    by (subst workerThread.simps) simp
qed

text \<open>The state in which the destructor's \<^verbatim>\<open>stop\<close> leaves a live instance.\<close>

lemma stop_live:
  assumes "objects w this = Some t" "is_running t \<longrightarrow> ok"
  shows "fst (stop ok this w) = Ok"
    and "objects (snd (stop ok this w)) = (objects w)(this \<mapsto> t\<lparr>is_running := False\<rparr>)"
    and "sems (snd (stop ok this w)) = sems w"
    and "signal_map (snd (stop ok this w)) = signal_map w"
    and "trace (snd (stop ok this w)) =
           trace w @ (if is_running t then [TimerSettime (timer_id t) (0, 0) True] else [])"
    and "timers (snd (stop ok this w)) (timer_id t) = None \<longleftrightarrow> timers w (timer_id t) = None"
    and "tid \<noteq> timer_id t \<Longrightarrow> timers (snd (stop ok this w)) tid = timers w tid"
proof -
  show "fst (stop ok this w) = Ok"
    and "objects (snd (stop ok this w)) = (objects w)(this \<mapsto> t\<lparr>is_running := False\<rparr>)"
    and "sems (snd (stop ok this w)) = sems w"
    and "signal_map (snd (stop ok this w)) = signal_map w"
    and "trace (snd (stop ok this w)) =
           trace w @ (if is_running t then [TimerSettime (timer_id t) (0, 0) True] else [])"
    and "timers (snd (stop ok this w)) (timer_id t) = None \<longleftrightarrow> timers w (timer_id t) = None"
    and "tid \<noteq> timer_id t \<Longrightarrow> timers (snd (stop ok this w)) tid = timers w tid"
    using assms
    by (cases "is_running t";
        simp add: stop_running stop_stopped map_upd_triv split: option.splits)+
qed

lemma dtor_effect:
  assumes live: "objects w this = Some t"
    and thr: "worker_thread t \<noteq> Joined"
    and sem: "sems w this = Some n"
    and ok: "is_running t \<longrightarrow> ok"
    and free: "\<not> signal_mutex w"
  shows "fst (RobustTimer_dtor ok this w) = Ok"
    and "trace (snd (RobustTimer_dtor ok this w)) =
           trace w @ (if is_running t then [TimerSettime (timer_id t) (0, 0) True] else []) @
             [TimerDelete (timer_id t), SemPost this] @
             (if worker_thread t = Waiting then [SemWait this] else []) @
             [ThreadJoin this, SemDestroy this, Lock, MapErase (signal_number t), Unlock]"
    and "objects (snd (RobustTimer_dtor ok this w)) = (objects w)(this := None)"
    and "signal_map (snd (RobustTimer_dtor ok this w)) = (signal_map w)(signal_number t := None)"
    and "sems (snd (RobustTimer_dtor ok this w)) = (sems w)(this := None)"
    and "timers (snd (RobustTimer_dtor ok this w)) (timer_id t) = None"
    and "tid \<noteq> timer_id t \<Longrightarrow> timers (snd (RobustTimer_dtor ok this w)) tid = timers w tid"
    and "\<not> signal_mutex (snd (RobustTimer_dtor ok this w))"
proof -
  let ?t1 = "t\<lparr>is_running := False\<rparr>"
  note s = stop_live [OF live ok]
  define w1 where "w1 = snd (stop ok this w)"
  have live1: "objects w1 this = Some ?t1" by (simp add: s w1_def)
  define w3 where
    "w3 = sem_post this (emit [TimerDelete (timer_id t)] (w1\<lparr>timers := (timers w1)(timer_id t := None)\<rparr>))"
  have live3: "objects w3 this = Some ?t1" by (simp add: w3_def live1)
  have sem3: "sems w3 this = Some (Suc n)" by (simp add: w3_def w1_def s sem)
  define w4 where "w4 = workerThread this w3"
  define t4 where
    "t4 = (if worker_thread t = Waiting then ?t1\<lparr>worker_thread := Finished\<rparr> else ?t1)"
  have w4: "w4 = (if worker_thread t = Waiting
                  then (emit [SemWait this] (w3\<lparr>sems := (sems w3)(this \<mapsto> n)\<rparr>))
                         \<lparr>objects := (objects w3)(this \<mapsto> ?t1\<lparr>worker_thread := Finished\<rparr>)\<rparr>
                  else w3)"
  proof (cases "worker_thread t = Waiting")
    case True
    then show ?thesis
      unfolding w4_def using workerThread_leaves_loop [OF live3 _ _ sem3] by simp
  next
    case False
    then show ?thesis
      unfolding w4_def using workerThread_not_waiting [OF live3] by simp
  qed
  have live4: "objects w4 this = Some t4"
    unfolding t4_def w4 using live3 by simp
  have nw: "worker_thread t4 \<noteq> Waiting" unfolding t4_def by simp
  have sn: "signal_number t4 = signal_number t" unfolding t4_def by simp
  have mu4: "\<not> signal_mutex w4"
    unfolding w4 w3_def w1_def using free by simp
  have d: "RobustTimer_dtor ok this w =
           (Ok, (release_guard
                   (emit [MapErase (signal_number t)]
                      ((emit [Lock]
                          ((emit [ThreadJoin this, SemDestroy this]
                              (w4\<lparr>sems := (sems w4)(this := None)\<rparr>))
                             \<lparr>signal_mutex := True\<rparr>))
                         \<lparr>signal_map := (signal_map w4)(signal_number t := None)\<rparr>)))
                 \<lparr>objects := (objects w4)(this := None)\<rparr>)"
  proof -
    have "RobustTimer_dtor ok this w =
            (case objects w4 this of
               None \<Rightarrow> (Undefined, w4)
             | Some t4 \<Rightarrow>
                 if worker_thread t4 = Waiting then (Deadlock, w4)
                 else
                   let w5 = emit ((if worker_thread t \<noteq> Joined then [ThreadJoin this]
                                   else []) @ [SemDestroy this])
                              (w4\<lparr>sems := (sems w4)(this := None)\<rparr>)
                   in (case lock_guard w5 of
                         None \<Rightarrow> (Blocked, w5)
                       | Some w6 \<Rightarrow>
                           let w7 = release_guard
                                      (emit [MapErase (signal_number t4)]
                                         (w6\<lparr>signal_map :=
                                               (signal_map w6)(signal_number t4 := None)\<rparr>))
                           in (Ok, w7\<lparr>objects := (objects w7)(this := None)\<rparr>)))"
      unfolding RobustTimer_dtor_def w4_def w3_def w1_def
      using s(1) live1 [unfolded w1_def] thr
      by (simp add: split_beta Let_def)
    then show ?thesis
      using live4 nw sn thr mu4 by (simp add: Let_def lock_guard_def)
  qed
  have tr4: "trace w4 = trace w @ (if is_running t then [TimerSettime (timer_id t) (0, 0) True] else []) @
             [TimerDelete (timer_id t), SemPost this] @
             (if worker_thread t = Waiting then [SemWait this] else [])"
    unfolding w4 w3_def w1_def by (simp add: s)
  have ob4: "(objects w4)(this := None) = (objects w)(this := None)"
    unfolding w4 w3_def w1_def by (simp add: s)
  have sm4: "signal_map w4 = signal_map w"
    unfolding w4 w3_def w1_def by (simp add: s)
  have se4: "(sems w4)(this := None) = (sems w)(this := None)"
    unfolding w4 w3_def w1_def by (simp add: s sem)
  have ti4: "timers w4 = (timers (snd (stop ok this w)))(timer_id t := None)"
    unfolding w4 w3_def w1_def by simp
  show "fst (RobustTimer_dtor ok this w) = Ok" by (simp add: d)
  show "trace (snd (RobustTimer_dtor ok this w)) =
           trace w @ (if is_running t then [TimerSettime (timer_id t) (0, 0) True] else []) @
             [TimerDelete (timer_id t), SemPost this] @
             (if worker_thread t = Waiting then [SemWait this] else []) @
             [ThreadJoin this, SemDestroy this, Lock, MapErase (signal_number t), Unlock]"
    by (simp add: d tr4)
  show "objects (snd (RobustTimer_dtor ok this w)) = (objects w)(this := None)"
    by (simp add: d ob4)
  show "signal_map (snd (RobustTimer_dtor ok this w)) = (signal_map w)(signal_number t := None)"
    by (simp add: d sm4)
  show "sems (snd (RobustTimer_dtor ok this w)) = (sems w)(this := None)"
    by (simp add: d se4)
  show "timers (snd (RobustTimer_dtor ok this w)) (timer_id t) = None"
    by (simp add: d ti4)
  show "tid \<noteq> timer_id t \<Longrightarrow> timers (snd (RobustTimer_dtor ok this w)) tid = timers w tid"
    by (simp add: d ti4 s)
  show "\<not> signal_mutex (snd (RobustTimer_dtor ok this w))"
    by (simp add: d)
qed

lemma dtor_disarm_failure:
  assumes "objects w this = Some t" "is_running t"
  shows "fst (RobustTimer_dtor False this w) = Terminated"
  using assms by (simp add: RobustTimer_dtor_def split_beta stop_running)

text \<open>
  Claim C5. Destroying a live instance whose semaphore is initialised, from the running
  or the stopped state and with the worker waiting or already out of its loop, at a
  moment when no other operation holds the mutex, returns normally (given that the disarm
  call, made only when the instance is running, does not fail) and performs these steps
  in this order: \<open>stop\<close>, which disarms the timer when the
  instance is running; \<^verbatim>\<open>timer_delete\<close>; the sentinel \<^verbatim>\<open>sem_post\<close>; the join, during
  which a waiting worker consumes the sentinel and leaves its loop; \<^verbatim>\<open>sem_destroy\<close>; and
  last, under the mutex, the removal of the signal number from the registry. Afterwards
  the object, its registry entry, its timer and its semaphore are gone.
\<close>

theorem destructor_steps_in_order:
  assumes "objects w this = Some t"
    and "worker_thread t \<noteq> Joined"
    and "sems w this = Some n"
    and "is_running t \<longrightarrow> ok"
    and "\<not> signal_mutex w"
  shows "fst (RobustTimer_dtor ok this w) = Ok \<and>
         new_events w (snd (RobustTimer_dtor ok this w)) =
           (if is_running t then [TimerSettime (timer_id t) (0, 0) True] else []) @
           [TimerDelete (timer_id t), SemPost this] @
           (if worker_thread t = Waiting then [SemWait this] else []) @
           [ThreadJoin this, SemDestroy this, Lock, MapErase (signal_number t), Unlock] \<and>
         objects (snd (RobustTimer_dtor ok this w)) this = None \<and>
         signal_map (snd (RobustTimer_dtor ok this w)) (signal_number t) = None \<and>
         timers (snd (RobustTimer_dtor ok this w)) (timer_id t) = None \<and>
         sems (snd (RobustTimer_dtor ok this w)) this = None \<and>
         \<not> signal_mutex (snd (RobustTimer_dtor ok this w))"
  using dtor_effect [OF assms] by simp

theorem destructor_witness:
  "objects world2 200 = Some timer2 \<and> worker_thread timer2 \<noteq> Joined \<and>
   sems world2 200 = Some 0 \<and> is_running timer2 \<and> \<not> signal_mutex world2 \<and>
   fst (RobustTimer_dtor True 200 world2) = Ok \<and>
   new_events world2 (snd (RobustTimer_dtor True 200 world2)) =
     [TimerSettime 8 (0, 0) True, TimerDelete 8, SemPost 200, SemWait 200, ThreadJoin 200,
      SemDestroy 200, Lock, MapErase 35, Unlock] \<and>
   objects world2 100 = Some timer1 \<and> worker_thread timer1 \<noteq> Joined \<and>
   sems world2 100 = Some 0 \<and> \<not> is_running timer1 \<and>
   new_events world2 (snd (RobustTimer_dtor False 100 world2)) =
     [TimerDelete 7, SemPost 100, SemWait 100, ThreadJoin 100,
      SemDestroy 100, Lock, MapErase 34, Unlock]"
proof -
  have a: "objects world2 200 = Some timer2" "worker_thread timer2 \<noteq> Joined"
    "sems world2 200 = Some 0" "is_running timer2 \<longrightarrow> True" "\<not> signal_mutex world2"
    by simp_all
  have b: "objects world2 100 = Some timer1" "worker_thread timer1 \<noteq> Joined"
    "sems world2 100 = Some 0" "is_running timer1 \<longrightarrow> False" "\<not> signal_mutex world2"
    by simp_all
  show ?thesis
    using destructor_steps_in_order [OF a] destructor_steps_in_order [OF b] by simp
qed

section \<open>The constructor\<close>

text \<open>
  Claim C3, evaluated where the code departs from it. With both signals of the pool
  taken, the constructor throws for lack of a signal number after \<^verbatim>\<open>sem_init\<close> has
  succeeded, and the semaphore is still initialised: no \<^verbatim>\<open>sem_destroy\<close> was called. When
  \<^verbatim>\<open>timer_create\<close> fails, the reserved signal number is removed from the registry and
  no object is left, but the semaphore is again still initialised.
\<close>

theorem failed_construction_leaves_semaphore_initialised:
  "fst (RobustTimer_ctor 34 35 True (Some 9) True 300 50 (Some 2) world2)
     = Threw ResourceExhausted \<and>
   sems (snd (RobustTimer_ctor 34 35 True (Some 9) True 300 50 (Some 2) world2)) 300 = Some 0 \<and>
   trace (snd (RobustTimer_ctor 34 35 True (Some 9) True 300 50 (Some 2) world2)) =
     [SemInit 300 True, Lock, MapFind 34, MapFind 35, Unlock] \<and>
   fst (RobustTimer_ctor 34 35 True None True 200 50 (Some 2) world1)
     = Threw TimerCreationFailed \<and>
   sems (snd (RobustTimer_ctor 34 35 True None True 200 50 (Some 2) world1)) 200 = Some 0 \<and>
   signal_map (snd (RobustTimer_ctor 34 35 True None True 200 50 (Some 2) world1)) 35 = None \<and>
   objects (snd (RobustTimer_ctor 34 35 True None True 200 50 (Some 2) world1)) 200 = None \<and>
   trace (snd (RobustTimer_ctor 34 35 True None True 200 50 (Some 2) world1)) =
     [SemInit 200 True, Lock, MapFind 34, MapFind 35, Sigaction 35, MapInsert 35 200, Unlock,
      TimerCreate 35 None, Lock, MapErase 35, Unlock]"
  by (simp add: RobustTimer_ctor_def ctor_reserve_def lock_guard_def release_guard_def
        scan.simps world1_def world2_def emit_def Let_def)

section \<open>What the constructor does\<close>

lemma ctor_reserve_free:
  "\<not> signal_mutex w \<Longrightarrow>
     ctor_reserve lo hi this w =
       Some (scan lo hi this
               (emit [Lock]
                  ((emit [SemInit this True] (w\<lparr>sems := (sems w)(this \<mapsto> 0)\<rparr>))
                     \<lparr>signal_mutex := True\<rparr>)))"
  by (simp add: ctor_reserve_def lock_guard_def)

lemma ctor_exhausted:
  assumes cb: "cb \<noteq> None" and full: "pool_exhausted lo hi w" and free: "\<not> signal_mutex w"
  shows "fst (RobustTimer_ctor lo hi True created thread_ok this ns cb w)
           = Threw ResourceExhausted"
    and "objects (snd (RobustTimer_ctor lo hi True created thread_ok this ns cb w)) = objects w"
    and "signal_map (snd (RobustTimer_ctor lo hi True created thread_ok this ns cb w))
           = signal_map w"
    and "timers (snd (RobustTimer_ctor lo hi True created thread_ok this ns cb w)) = timers w"
    and "sems (snd (RobustTimer_ctor lo hi True created thread_ok this ns cb w))
           = (sems w)(this \<mapsto> 0)"
    and "trace (snd (RobustTimer_ctor lo hi True created thread_ok this ns cb w)) =
           trace w @ [SemInit this True, Lock] @ map MapFind [lo..hi] @ [Unlock]"
    and "\<not> signal_mutex (snd (RobustTimer_ctor lo hi True created thread_ok this ns cb w))"
proof -
  define w1 where
    "w1 = emit [Lock] ((emit [SemInit this True] (w\<lparr>sems := (sems w)(this \<mapsto> 0)\<rparr>))
                         \<lparr>signal_mutex := True\<rparr>)"
  have "\<forall>s. lo \<le> s \<and> s \<le> hi \<longrightarrow> signal_map w1 s \<noteq> None"
    using full by (simp add: pool_exhausted_iff w1_def)
  note sc = scan_exhausted [OF this, of this] and fr = scan_frame [of lo hi this w1]
  have r: "ctor_reserve lo hi this w = Some (scan lo hi this w1)"
    using free by (simp add: ctor_reserve_free w1_def)
  have c: "RobustTimer_ctor lo hi True created thread_ok this ns cb w =
             (Threw ResourceExhausted, release_guard (snd (scan lo hi this w1)))"
    using cb sc by (auto simp: RobustTimer_ctor_def r Let_def split_beta)
  show "fst (RobustTimer_ctor lo hi True created thread_ok this ns cb w)
           = Threw ResourceExhausted"
    and "objects (snd (RobustTimer_ctor lo hi True created thread_ok this ns cb w)) = objects w"
    and "signal_map (snd (RobustTimer_ctor lo hi True created thread_ok this ns cb w))
           = signal_map w"
    and "timers (snd (RobustTimer_ctor lo hi True created thread_ok this ns cb w)) = timers w"
    and "sems (snd (RobustTimer_ctor lo hi True created thread_ok this ns cb w))
           = (sems w)(this \<mapsto> 0)"
    and "trace (snd (RobustTimer_ctor lo hi True created thread_ok this ns cb w)) =
           trace w @ [SemInit this True, Lock] @ map MapFind [lo..hi] @ [Unlock]"
    and "\<not> signal_mutex (snd (RobustTimer_ctor lo hi True created thread_ok this ns cb w))"
    by (simp_all add: c sc fr) (simp_all add: w1_def)
qed

lemma ctor_scan_facts:
  fixes w :: world and this :: ptr
  assumes s: "lo \<le> s" "s \<le> hi" "signal_map w s = None"
      "\<forall>s'. lo \<le> s' \<and> s' < s \<longrightarrow> signal_map w s' \<noteq> None"
    and free: "\<not> signal_mutex w"
  defines "w1 \<equiv> emit [Lock] ((emit [SemInit this True] (w\<lparr>sems := (sems w)(this \<mapsto> 0)\<rparr>))
                               \<lparr>signal_mutex := True\<rparr>)"
  shows "ctor_reserve lo hi this w = Some (scan lo hi this w1)"
    and "fst (scan lo hi this w1) = s"
    and "signal_map (snd (scan lo hi this w1)) = (signal_map w)(s \<mapsto> this)"
    and "trace (snd (scan lo hi this w1)) =
           trace w @ [SemInit this True, Lock] @ map MapFind [lo..s] @
             [Sigaction s, MapInsert s this]"
    and "objects (snd (scan lo hi this w1)) = objects w"
    and "sems (snd (scan lo hi this w1)) = (sems w)(this \<mapsto> 0)"
    and "timers (snd (scan lo hi this w1)) = timers w"
proof -
  have 1: "signal_map w1 s = None"
    and 2: "\<forall>s'. lo \<le> s' \<and> s' < s \<longrightarrow> signal_map w1 s' \<noteq> None"
    using s by (simp_all add: w1_def)
  note sc = scan_first_free [OF s(1,2) 1 2, of this] and fr = scan_frame [of lo hi this w1]
  show "ctor_reserve lo hi this w = Some (scan lo hi this w1)"
    using free by (simp add: ctor_reserve_free w1_def)
  show "fst (scan lo hi this w1) = s" using sc by simp
  show "signal_map (snd (scan lo hi this w1)) = (signal_map w)(s \<mapsto> this)"
    using sc by (simp add: w1_def)
  show "trace (snd (scan lo hi this w1)) =
           trace w @ [SemInit this True, Lock] @ map MapFind [lo..s] @
             [Sigaction s, MapInsert s this]"
    using sc by (simp add: w1_def)
  show "objects (snd (scan lo hi this w1)) = objects w" using fr by (simp add: w1_def)
  show "sems (snd (scan lo hi this w1)) = (sems w)(this \<mapsto> 0)" using fr by (simp add: w1_def)
  show "timers (snd (scan lo hi this w1)) = timers w" using fr by (simp add: w1_def)
qed

lemma ctor_created:
  assumes cb: "cb \<noteq> None"
    and s: "lo \<le> s" "s \<le> hi" "signal_map w s = None"
      "\<forall>s'. lo \<le> s' \<and> s' < s \<longrightarrow> signal_map w s' \<noteq> None"
    and free: "\<not> signal_mutex w"
    and ne: "s \<noteq> - 1"
  shows "fst (RobustTimer_ctor lo hi True (Some tid) True this ns cb w) = Ok"
    and "objects (snd (RobustTimer_ctor lo hi True (Some tid) True this ns cb w)) =
           (objects w)(this \<mapsto>
              \<lparr>timer_id = tid, timeout_ns = ns, callback = cb, is_running = False,
               worker_thread = Waiting, signal_number = s\<rparr>)"
    and "signal_map (snd (RobustTimer_ctor lo hi True (Some tid) True this ns cb w)) =
           (signal_map w)(s \<mapsto> this)"
    and "sems (snd (RobustTimer_ctor lo hi True (Some tid) True this ns cb w))
           = (sems w)(this \<mapsto> 0)"
    and "timers (snd (RobustTimer_ctor lo hi True (Some tid) True this ns cb w)) =
           (timers w)(tid \<mapsto> \<lparr>sigev_signo = s, sival_ptr = this, it_value = (0, 0)\<rparr>)"
    and "trace (snd (RobustTimer_ctor lo hi True (Some tid) True this ns cb w)) =
           trace w @ [SemInit this True, Lock] @ map MapFind [lo..s] @
             [Sigaction s, MapInsert s this, Unlock, TimerCreate s (Some tid), ThreadStart this]"
    and "\<not> signal_mutex (snd (RobustTimer_ctor lo hi True (Some tid) True this ns cb w))"
  using cb ne
  by (auto simp: RobustTimer_ctor_def Let_def split_beta ctor_scan_facts [OF s free])

lemma ctor_thread_failed:
  assumes cb: "cb \<noteq> None"
    and s: "lo \<le> s" "s \<le> hi" "signal_map w s = None"
      "\<forall>s'. lo \<le> s' \<and> s' < s \<longrightarrow> signal_map w s' \<noteq> None"
    and free: "\<not> signal_mutex w"
    and ne: "s \<noteq> - 1"
  shows "fst (RobustTimer_ctor lo hi True (Some tid) False this ns cb w)
           = Threw ThreadStartFailed"
    and "objects (snd (RobustTimer_ctor lo hi True (Some tid) False this ns cb w)) = objects w"
    and "signal_map (snd (RobustTimer_ctor lo hi True (Some tid) False this ns cb w)) =
           (signal_map w)(s \<mapsto> this)"
    and "sems (snd (RobustTimer_ctor lo hi True (Some tid) False this ns cb w))
           = (sems w)(this \<mapsto> 0)"
    and "timers (snd (RobustTimer_ctor lo hi True (Some tid) False this ns cb w)) =
           (timers w)(tid \<mapsto> \<lparr>sigev_signo = s, sival_ptr = this, it_value = (0, 0)\<rparr>)"
  using cb ne
  by (auto simp: RobustTimer_ctor_def Let_def split_beta ctor_scan_facts [OF s free])

lemma ctor_create_failed:
  assumes cb: "cb \<noteq> None"
    and s: "lo \<le> s" "s \<le> hi" "signal_map w s = None"
      "\<forall>s'. lo \<le> s' \<and> s' < s \<longrightarrow> signal_map w s' \<noteq> None"
    and free: "\<not> signal_mutex w"
    and ne: "s \<noteq> - 1"
  shows "fst (RobustTimer_ctor lo hi True None thread_ok this ns cb w)
           = Threw TimerCreationFailed"
    and "objects (snd (RobustTimer_ctor lo hi True None thread_ok this ns cb w)) = objects w"
    and "signal_map (snd (RobustTimer_ctor lo hi True None thread_ok this ns cb w))
           = signal_map w"
    and "sems (snd (RobustTimer_ctor lo hi True None thread_ok this ns cb w))
           = (sems w)(this \<mapsto> 0)"
    and "timers (snd (RobustTimer_ctor lo hi True None thread_ok this ns cb w)) = timers w"
    and "trace (snd (RobustTimer_ctor lo hi True None thread_ok this ns cb w)) =
           trace w @ [SemInit this True, Lock] @ map MapFind [lo..s] @
             [Sigaction s, MapInsert s this, Unlock, TimerCreate s None, Lock, MapErase s, Unlock]"
    and "\<not> signal_mutex (snd (RobustTimer_ctor lo hi True None thread_ok this ns cb w))"
  using cb ne s(3)
  by (auto simp: RobustTimer_ctor_def Let_def split_beta ctor_scan_facts [OF s free]
        lock_guard_def fun_upd_idem)

section \<open>The registry invariant\<close>

lemma registry_inv_same_owners:
  assumes "registry_inv w"
    and "signal_map w' = signal_map w"
    and "\<And>p. map_option signal_number (objects w' p) = map_option signal_number (objects w p)"
  shows "registry_inv w'"
proof -
  have "(\<exists>t. objects w' p = Some t \<and> signal_number t = s) \<longleftrightarrow>
        (\<exists>t. objects w p = Some t \<and> signal_number t = s)" for p s
    using assms(3) [of p]
    by (cases "objects w' p"; cases "objects w p") auto
  with assms(1,2) show ?thesis by (simp add: registry_inv_def)
qed

lemma apply_action_owners:
  assumes "apply_action this a w = Some w'"
  shows "signal_map w' = signal_map w \<and>
         map_option signal_number (objects w' p) = map_option signal_number (objects w p)"
proof (cases "objects w this")
  case None
  with assms show ?thesis
    by (cases a)
       (auto simp: start_def stop_def changeTimeout_def worker_iteration_def
          signalHandler_Some)
next
  case (Some t)
  show ?thesis
  proof (cases a)
    case (Start ok)
    with Some assms show ?thesis
      by (cases "is_running t") (auto simp: start_running start_stopped)
  next
    case (Stop ok)
    with Some assms show ?thesis
      by (cases "is_running t") (auto simp: stop_running stop_stopped)
  next
    case (ChangeTimeout ok d)
    with Some assms show ?thesis
      by (cases "is_running t") (auto simp: changeTimeout_running changeTimeout_stopped)
  next
    case (Signal signo)
    with assms show ?thesis by (simp add: signalHandler_Some)
  next
    case Worker
    with Some assms show ?thesis
      by (auto simp: worker_iteration_def sem_wait_def Let_def split: option.splits nat.splits)
  next
    case WorkerEINTR
    with Some assms show ?thesis
      by (auto simp: worker_iteration_def sem_wait_def Let_def split: option.splits nat.splits)
  qed
qed

lemma registry_inv_run:
  "registry_inv w \<Longrightarrow> run this as w = Some w' \<Longrightarrow> registry_inv w'"
proof (induction as arbitrary: w)
  case Nil
  then show ?case by simp
next
  case (Cons a as)
  from Cons.prems(2) obtain w1 where w1: "apply_action this a w = Some w1"
    and r: "run this as w1 = Some w'"
    by (auto split: option.splits)
  have "registry_inv w1"
    using Cons.prems(1)
    by (rule registry_inv_same_owners) (simp_all add: apply_action_owners [OF w1])
  then show ?case using r by (rule Cons.IH)
qed

lemma registry_inv_free:
  assumes "registry_inv w" "signal_map w s = None" "objects w p = Some t"
  shows "signal_number t \<noteq> s"
proof
  assume "signal_number t = s"
  with assms(1,3) have "signal_map w s = Some p" by (auto simp: registry_inv_def)
  with assms(2) show False by simp
qed

lemma registry_inv_insert:
  assumes inv: "registry_inv w" and free: "signal_map w s = None"
    and fresh: "objects w this = None"
    and sm: "signal_map w' = (signal_map w)(s \<mapsto> this)"
    and ob: "objects w' = (objects w)(this \<mapsto> t)" and sn: "signal_number t = s"
  shows "registry_inv w'"
  unfolding registry_inv_def
proof (intro allI)
  fix x p
  show "signal_map w' x = Some p \<longleftrightarrow> (\<exists>t. objects w' p = Some t \<and> signal_number t = x)"
  proof (cases "p = this")
    case True
    have "signal_map w x \<noteq> Some this" for x
      using inv fresh by (auto simp: registry_inv_def)
    with True show ?thesis by (auto simp: sm ob sn)
  next
    case False
    have "signal_number t' \<noteq> s" if "objects w p = Some t'" for t'
      using registry_inv_free [OF inv free that] .
    with False inv show ?thesis
      by (auto simp: sm ob registry_inv_def)
  qed
qed

lemma registry_inv_erase:
  assumes inv: "registry_inv w" and live: "objects w this = Some t"
    and sm: "signal_map w' = (signal_map w)(signal_number t := None)"
    and ob: "objects w' = (objects w)(this := None)"
  shows "registry_inv w'"
  unfolding registry_inv_def
proof (intro allI)
  fix x p
  have own: "signal_map w (signal_number t) = Some this"
    using inv live by (auto simp: registry_inv_def)
  show "signal_map w' x = Some p \<longleftrightarrow> (\<exists>t. objects w' p = Some t \<and> signal_number t = x)"
  proof (cases "x = signal_number t")
    case True
    have "p = this" if "objects w p = Some t'" "signal_number t' = signal_number t" for t'
    proof -
      from inv that have "signal_map w (signal_number t) = Some p"
        by (auto simp: registry_inv_def)
      with own show ?thesis by simp
    qed
    with True show ?thesis by (auto simp: sm ob)
  next
    case False
    with inv live show ?thesis
      by (auto simp: sm ob registry_inv_def)
  qed
qed

lemma registry_inv_ctor:
  assumes inv: "registry_inv w" and fresh: "objects w this = None" and pos: "0 < lo"
    and free: "\<not> signal_mutex w"
    and out: "fst (RobustTimer_ctor lo hi sem_init_ok created thread_ok this ns cb w)
                \<noteq> Threw ThreadStartFailed"
  shows "registry_inv (snd (RobustTimer_ctor lo hi sem_init_ok created thread_ok this ns cb w))"
proof -
  let ?w' = "snd (RobustTimer_ctor lo hi sem_init_ok created thread_ok this ns cb w)"
  consider (null) "cb = None" | (sem) "cb \<noteq> None" "\<not> sem_init_ok"
    | (full) "cb \<noteq> None" "sem_init_ok" "pool_exhausted lo hi w"
    | (avail) "cb \<noteq> None" "sem_init_ok" "\<not> pool_exhausted lo hi w"
    by blast
  then show ?thesis
  proof cases
    case null
    then show ?thesis using inv by (simp add: RobustTimer_ctor_def)
  next
    case sem
    then have eqs: "signal_map ?w' = signal_map w" "objects ?w' = objects w"
      by (auto simp: RobustTimer_ctor_def)
    show ?thesis by (rule registry_inv_same_owners [OF inv]) (simp_all add: eqs)
  next
    case full
    then have eqs: "signal_map ?w' = signal_map w" "objects ?w' = objects w"
      using free by (simp_all add: ctor_exhausted)
    show ?thesis by (rule registry_inv_same_owners [OF inv]) (simp_all add: eqs)
  next
    case avail
    from first_free_exists [OF avail(3)]
    obtain s where s: "lo \<le> s" "s \<le> hi" "signal_map w s = None"
      "\<forall>s'. lo \<le> s' \<and> s' < s \<longrightarrow> signal_map w s' \<noteq> None"
      by blast
    from s(1) pos have ne: "s \<noteq> - 1" by simp
    show ?thesis
    proof (cases created)
      case None
      with avail have eqs: "signal_map ?w' = signal_map w" "objects ?w' = objects w"
        by (simp_all add: ctor_create_failed [OF avail(1) s free ne])
      show ?thesis by (rule registry_inv_same_owners [OF inv]) (simp_all add: eqs)
    next
      case (Some tid)
      have "thread_ok"
      proof (rule ccontr)
        assume "\<not> thread_ok"
        with avail(2) Some out ctor_thread_failed(1) [OF avail(1) s free ne, of tid this ns]
        show False by simp
      qed
      note c = ctor_created [OF avail(1) s free ne, of tid this ns]
      have e: "RobustTimer_ctor lo hi sem_init_ok created thread_ok this ns cb w =
               RobustTimer_ctor lo hi True (Some tid) True this ns cb w"
        using avail(2) Some \<open>thread_ok\<close> by simp
      show ?thesis
        unfolding e by (rule registry_inv_insert [OF inv s(3) fresh c(3) c(2)]) simp
    qed
  qed
qed

text \<open>
  When the start of the worker thread fails, the constructor throws with the entry still
  in the registry, and no object owns it.
\<close>

lemma ctor_thread_failure_keeps_entry:
  assumes "cb \<noteq> None" "\<not> pool_exhausted lo hi w" "0 < lo" "\<not> signal_mutex w"
    "objects w this = None"
  shows "fst (RobustTimer_ctor lo hi True (Some tid) False this ns cb w)
           = Threw ThreadStartFailed \<and>
         this \<in> ran (signal_map (snd (RobustTimer_ctor lo hi True (Some tid) False this ns cb w))) \<and>
         objects (snd (RobustTimer_ctor lo hi True (Some tid) False this ns cb w)) this = None"
proof -
  from first_free_exists [OF assms(2)]
  obtain s where s: "lo \<le> s" "s \<le> hi" "signal_map w s = None"
    "\<forall>s'. lo \<le> s' \<and> s' < s \<longrightarrow> signal_map w s' \<noteq> None"
    by blast
  from s(1) assms(3) have ne: "s \<noteq> - 1" by simp
  note c = ctor_thread_failed [OF assms(1) s assms(4) ne, of tid this ns]
  from c assms(5) show ?thesis by (auto simp: ran_def)
qed

lemma registry_inv_dtor:
  assumes "registry_inv w" "objects w this = Some t" "worker_thread t \<noteq> Joined"
    "sems w this = Some n" "is_running t \<longrightarrow> ok" "\<not> signal_mutex w"
  shows "registry_inv (snd (RobustTimer_dtor ok this w))"
  using assms(1,2)
  by (rule registry_inv_erase) (simp_all add: dtor_effect [OF assms(2-6)])

lemma registry_inv_world0: "registry_inv world0"
  by (simp add: registry_inv_def world0_def)

lemma ctor_ok_first_free:
  assumes pos: "0 < lo" and cb: "cb \<noteq> None" and free: "\<not> signal_mutex w"
    and out: "fst (RobustTimer_ctor lo hi True created thread_ok this ns cb w)
                \<noteq> Threw ResourceExhausted"
  obtains s where "lo \<le> s" "s \<le> hi" "signal_map w s = None"
    "\<forall>s'. lo \<le> s' \<and> s' < s \<longrightarrow> signal_map w s' \<noteq> None" "s \<noteq> - 1"
proof -
  have "\<not> pool_exhausted lo hi w"
    using out ctor_exhausted(1) [OF cb _ free, of lo hi created thread_ok this ns] by blast
  from first_free_exists [OF this]
  obtain s where s: "lo \<le> s" "s \<le> hi" "signal_map w s = None"
      "\<forall>s'. lo \<le> s' \<and> s' < s \<longrightarrow> signal_map w s' \<noteq> None"
    by blast
  moreover from s(1) pos have "s \<noteq> - 1" by simp
  ultimately show ?thesis by (rule that)
qed

lemma ctor_insert_precedes_create:
  assumes "0 < lo" "cb \<noteq> None" "\<not> signal_mutex w"
    and "fst (RobustTimer_ctor lo hi True (Some tid) True this ns cb w) = Ok"
  shows "\<exists>s. lo \<le> s \<and> s \<le> hi \<and> signal_map w s = None \<and>
             signal_map (snd (RobustTimer_ctor lo hi True (Some tid) True this ns cb w)) =
               (signal_map w)(s \<mapsto> this) \<and>
             new_events w (snd (RobustTimer_ctor lo hi True (Some tid) True this ns cb w)) =
               [SemInit this True, Lock] @ map MapFind [lo..s] @
               [Sigaction s, MapInsert s this, Unlock, TimerCreate s (Some tid),
                ThreadStart this]"
proof -
  from assms(4)
  have "fst (RobustTimer_ctor lo hi True (Some tid) True this ns cb w)
          \<noteq> Threw ResourceExhausted"
    by simp
  from ctor_ok_first_free [OF assms(1,2,3) this]
  obtain s where s: "lo \<le> s" "s \<le> hi" "signal_map w s = None"
    "\<forall>s'. lo \<le> s' \<and> s' < s \<longrightarrow> signal_map w s' \<noteq> None" and ne: "s \<noteq> - 1"
    by blast
  note c = ctor_created [OF assms(2) s assms(3) ne, of tid this ns]
  from s(1-3) c(3) c(6) show ?thesis
    by (intro exI [of _ s]) simp
qed

lemma ctor_rollback_on_create_failure:
  assumes "0 < lo" "cb \<noteq> None" "\<not> signal_mutex w"
    and "fst (RobustTimer_ctor lo hi True None thread_ok this ns cb w)
           = Threw TimerCreationFailed"
  shows "signal_map (snd (RobustTimer_ctor lo hi True None thread_ok this ns cb w))
           = signal_map w \<and>
         objects (snd (RobustTimer_ctor lo hi True None thread_ok this ns cb w)) = objects w \<and>
         (\<exists>s. lo \<le> s \<and> s \<le> hi \<and> signal_map w s = None \<and>
              new_events w (snd (RobustTimer_ctor lo hi True None thread_ok this ns cb w)) =
                [SemInit this True, Lock] @ map MapFind [lo..s] @
                [Sigaction s, MapInsert s this, Unlock, TimerCreate s None,
                 Lock, MapErase s, Unlock])"
proof -
  from assms(4)
  have "fst (RobustTimer_ctor lo hi True None thread_ok this ns cb w)
          \<noteq> Threw ResourceExhausted"
    by simp
  from ctor_ok_first_free [OF assms(1,2,3) this]
  obtain s where s: "lo \<le> s" "s \<le> hi" "signal_map w s = None"
    "\<forall>s'. lo \<le> s' \<and> s' < s \<longrightarrow> signal_map w s' \<noteq> None" and ne: "s \<noteq> - 1"
    by blast
  note c = ctor_create_failed [OF assms(2) s assms(3) ne, of thread_ok this ns]
  have "\<exists>s. lo \<le> s \<and> s \<le> hi \<and> signal_map w s = None \<and>
              new_events w (snd (RobustTimer_ctor lo hi True None thread_ok this ns cb w)) =
                [SemInit this True, Lock] @ map MapFind [lo..s] @
                [Sigaction s, MapInsert s this, Unlock, TimerCreate s None,
                 Lock, MapErase s, Unlock]"
    using s(1-3) c(6) by (intro exI [of _ s]) simp
  with c(2,3) show ?thesis by simp
qed

lemma dtor_new_events:
  assumes "objects w this = Some t" "worker_thread t \<noteq> Joined" "sems w this = Some n"
    "is_running t \<longrightarrow> ok" "\<not> signal_mutex w"
  shows "new_events w (snd (RobustTimer_dtor ok this w)) =
           (if is_running t then [TimerSettime (timer_id t) (0, 0) True] else []) @
           [TimerDelete (timer_id t), SemPost this] @
           (if worker_thread t = Waiting then [SemWait this] else []) @
           [ThreadJoin this, SemDestroy this, Lock, MapErase (signal_number t), Unlock]"
  using dtor_effect(2) [OF assms] by simp

lemma registry_inv_world1: "registry_inv world1"
  by (auto simp: registry_inv_def world1_def timer1_def split: if_splits)

lemma registry_inv_world2: "registry_inv world2"
  by (auto simp: registry_inv_def world2_def timer1_def timer2_def split: if_splits)


text \<open>
  Claim C4, as stated, fails on the order of insertion: the constructor inserts the
  registry entry inside the allocation loop, before it calls \<^verbatim>\<open>timer_create\<close>. When
  \<^verbatim>\<open>timer_create\<close> fails, an entry has been inserted although no binding was ever
  established; when it succeeds, the insertion precedes it in the trace.
\<close>

theorem registry_entry_inserted_before_timer_create:
  "fst (RobustTimer_ctor 34 35 True None True 200 50 (Some 1) world1)
     = Threw TimerCreationFailed \<and>
   MapInsert 35 200
     \<in> set (trace (snd (RobustTimer_ctor 34 35 True None True 200 50 (Some 1) world1))) \<and>
   fst (RobustTimer_ctor 34 35 True (Some 8) True 200 50 (Some 1) world1) = Ok \<and>
   trace (snd (RobustTimer_ctor 34 35 True (Some 8) True 200 50 (Some 1) world1)) =
     [SemInit 200 True, Lock, MapFind 34, MapFind 35, Sigaction 35, MapInsert 35 200, Unlock,
      TimerCreate 35 (Some 8), ThreadStart 200]"
  by (simp add: RobustTimer_ctor_def ctor_reserve_def lock_guard_def release_guard_def
        scan.simps world1_def emit_def Let_def)

text \<open>
  Claim C4, amended. Between operations, when no operation holds the mutex, the registry
  holds a signal number exactly when a live instance owns it: the invariant is kept by a
  construction at a fresh address that succeeds, or that fails at the callback check, at
  \<^verbatim>\<open>sem_init\<close>, for lack of a signal number or at \<^verbatim>\<open>timer_create\<close>; by destruction; and by
  every schedule of starts, stops, timeout changes, signals and worker wakes. A
  successful construction inserts the entry once, when the signal number is reserved and
  before \<^verbatim>\<open>timer_create\<close> is called; when \<^verbatim>\<open>timer_create\<close> fails the entry is erased again
  before the constructor throws, and the registry is as before. Destruction erases the
  entry once, as its last step, after \<^verbatim>\<open>timer_delete\<close> and after the worker has been
  joined.
\<close>

theorem registry_invariant_with_insertion_at_reservation:
  assumes "registry_inv w"
  shows "(objects w this = None \<and> 0 < lo \<and> \<not> signal_mutex w \<and>
          fst (RobustTimer_ctor lo hi sem_init_ok created thread_ok this ns cb w)
            \<noteq> Threw ThreadStartFailed \<longrightarrow>
            registry_inv
              (snd (RobustTimer_ctor lo hi sem_init_ok created thread_ok this ns cb w))) \<and>
         (\<forall>t n. objects w this = Some t \<and> worker_thread t \<noteq> Joined \<and> sems w this = Some n \<and>
                (is_running t \<longrightarrow> ok) \<and> \<not> signal_mutex w \<longrightarrow>
            registry_inv (snd (RobustTimer_dtor ok this w)) \<and>
            signal_map (snd (RobustTimer_dtor ok this w)) (signal_number t) = None \<and>
            new_events w (snd (RobustTimer_dtor ok this w)) =
              (if is_running t then [TimerSettime (timer_id t) (0, 0) True] else []) @
              [TimerDelete (timer_id t), SemPost this] @
              (if worker_thread t = Waiting then [SemWait this] else []) @
              [ThreadJoin this, SemDestroy this, Lock, MapErase (signal_number t), Unlock]) \<and>
         (\<forall>w'. run this as w = Some w' \<longrightarrow> registry_inv w') \<and>
         (\<not> signal_mutex w \<longrightarrow> run this as w \<noteq> None) \<and>
         (0 < lo \<and> cb \<noteq> None \<and> \<not> signal_mutex w \<and>
          fst (RobustTimer_ctor lo hi True (Some tid) True this ns cb w) = Ok \<longrightarrow>
            (\<exists>s. lo \<le> s \<and> s \<le> hi \<and> signal_map w s = None \<and>
                 signal_map (snd (RobustTimer_ctor lo hi True (Some tid) True this ns cb w)) =
                   (signal_map w)(s \<mapsto> this) \<and>
                 new_events w (snd (RobustTimer_ctor lo hi True (Some tid) True this ns cb w)) =
                   [SemInit this True, Lock] @ map MapFind [lo..s] @
                   [Sigaction s, MapInsert s this, Unlock, TimerCreate s (Some tid),
                    ThreadStart this])) \<and>
         (0 < lo \<and> cb \<noteq> None \<and> \<not> signal_mutex w \<and>
          fst (RobustTimer_ctor lo hi True None thread_ok this ns cb w)
            = Threw TimerCreationFailed \<longrightarrow>
            signal_map (snd (RobustTimer_ctor lo hi True None thread_ok this ns cb w))
              = signal_map w \<and>
            objects (snd (RobustTimer_ctor lo hi True None thread_ok this ns cb w))
              = objects w \<and>
            (\<exists>s. lo \<le> s \<and> s \<le> hi \<and> signal_map w s = None \<and>
                 new_events w (snd (RobustTimer_ctor lo hi True None thread_ok this ns cb w)) =
                   [SemInit this True, Lock] @ map MapFind [lo..s] @
                   [Sigaction s, MapInsert s this, Unlock, TimerCreate s None,
                    Lock, MapErase s, Unlock]))"
proof (intro conjI impI allI)
  assume "objects w this = None \<and> 0 < lo \<and> \<not> signal_mutex w \<and>
          fst (RobustTimer_ctor lo hi sem_init_ok created thread_ok this ns cb w)
            \<noteq> Threw ThreadStartFailed"
  then show "registry_inv
               (snd (RobustTimer_ctor lo hi sem_init_ok created thread_ok this ns cb w))"
    using registry_inv_ctor [OF assms] by blast
next
  fix w'
  assume "run this as w = Some w'"
  with assms show "registry_inv w'" by (rule registry_inv_run)
next
  assume "\<not> signal_mutex w"
  then show "run this as w \<noteq> None" using run_returns [of w this as] by auto
next
  fix t n
  assume a: "objects w this = Some t \<and> worker_thread t \<noteq> Joined \<and> sems w this = Some n \<and>
             (is_running t \<longrightarrow> ok) \<and> \<not> signal_mutex w"
  then have l: "objects w this = Some t" "worker_thread t \<noteq> Joined" "sems w this = Some n"
    "is_running t \<longrightarrow> ok" "\<not> signal_mutex w" by blast+
  show "registry_inv (snd (RobustTimer_dtor ok this w))"
    using assms l by (rule registry_inv_dtor)
  show "signal_map (snd (RobustTimer_dtor ok this w)) (signal_number t) = None"
    by (simp add: dtor_effect(4) [OF l])
  show "new_events w (snd (RobustTimer_dtor ok this w)) =
              (if is_running t then [TimerSettime (timer_id t) (0, 0) True] else []) @
              [TimerDelete (timer_id t), SemPost this] @
              (if worker_thread t = Waiting then [SemWait this] else []) @
              [ThreadJoin this, SemDestroy this, Lock, MapErase (signal_number t), Unlock]"
    using l by (rule dtor_new_events)
next
  assume "0 < lo \<and> cb \<noteq> None \<and> \<not> signal_mutex w \<and>
          fst (RobustTimer_ctor lo hi True (Some tid) True this ns cb w) = Ok"
  then show "\<exists>s. lo \<le> s \<and> s \<le> hi \<and> signal_map w s = None \<and>
                 signal_map (snd (RobustTimer_ctor lo hi True (Some tid) True this ns cb w)) =
                   (signal_map w)(s \<mapsto> this) \<and>
                 new_events w (snd (RobustTimer_ctor lo hi True (Some tid) True this ns cb w)) =
                   [SemInit this True, Lock] @ map MapFind [lo..s] @
                   [Sigaction s, MapInsert s this, Unlock, TimerCreate s (Some tid),
                    ThreadStart this]"
    using ctor_insert_precedes_create [of lo cb w hi tid this ns] by blast
next
  assume a: "0 < lo \<and> cb \<noteq> None \<and> \<not> signal_mutex w \<and>
          fst (RobustTimer_ctor lo hi True None thread_ok this ns cb w)
            = Threw TimerCreationFailed"
  note r = ctor_rollback_on_create_failure [of lo cb w hi thread_ok this ns]
  from a r show "signal_map (snd (RobustTimer_ctor lo hi True None thread_ok this ns cb w))
                   = signal_map w"
    by blast
  from a r show "objects (snd (RobustTimer_ctor lo hi True None thread_ok this ns cb w))
                   = objects w"
    by blast
  from a r show "\<exists>s. lo \<le> s \<and> s \<le> hi \<and> signal_map w s = None \<and>
                 new_events w (snd (RobustTimer_ctor lo hi True None thread_ok this ns cb w)) =
                   [SemInit this True, Lock] @ map MapFind [lo..s] @
                   [Sigaction s, MapInsert s this, Unlock, TimerCreate s None,
                    Lock, MapErase s, Unlock]"
    by blast
qed

theorem registry_invariant_witness:
  "registry_inv world1 \<and> objects world1 200 = None \<and> (0::int) < 34 \<and>
   \<not> signal_mutex world1 \<and>
   fst (RobustTimer_ctor 34 35 True (Some 8) True 200 50 (Some 1) world1)
     \<noteq> Threw ThreadStartFailed \<and>
   registry_inv (snd (RobustTimer_ctor 34 35 True (Some 8) True 200 50 (Some 1) world1)) \<and>
   objects world1 100 = Some timer1 \<and> worker_thread timer1 \<noteq> Joined \<and>
   sems world1 100 = Some 0 \<and> \<not> is_running timer1 \<and>
   registry_inv (snd (RobustTimer_dtor True 100 world1)) \<and>
   signal_map (snd (RobustTimer_dtor True 100 world1)) 34 = None \<and>
   run 100 [Start True, Signal 34, Worker, Stop True] world1 \<noteq> None \<and>
   map_option registry_inv (run 100 [Start True, Signal 34, Worker, Stop True] world1)
     = Some True \<and>
   Some (1::nat) \<noteq> None \<and>
   fst (RobustTimer_ctor 34 35 True (Some 8) True 200 50 (Some 1) world1) = Ok \<and>
   signal_map (snd (RobustTimer_ctor 34 35 True (Some 8) True 200 50 (Some 1) world1)) 35
     = Some 200 \<and>
   fst (RobustTimer_ctor 34 35 True None True 200 50 (Some 1) world1)
     = Threw TimerCreationFailed \<and>
   signal_map (snd (RobustTimer_ctor 34 35 True None True 200 50 (Some 1) world1))
     = signal_map world1"
proof -
  note inv = registry_inv_world1
  note t = registry_invariant_with_insertion_at_reservation [OF inv]
  have okc: "fst (RobustTimer_ctor 34 35 True (Some 8) True 200 50 (Some 1) world1) = Ok"
    and failc: "fst (RobustTimer_ctor 34 35 True None True 200 50 (Some 1) world1) =
                  Threw TimerCreationFailed"
    and sm: "signal_map (snd (RobustTimer_ctor 34 35 True (Some 8) True 200 50 (Some 1) world1))
               35 = Some 200"
    by (simp_all add: RobustTimer_ctor_def ctor_reserve_def lock_guard_def release_guard_def
          scan.simps world1_def emit_def Let_def)
  have fresh: "objects world1 200 = None \<and> (0::int) < 34 \<and> \<not> signal_mutex world1 \<and>
               fst (RobustTimer_ctor 34 35 True (Some 8) True 200 50 (Some 1) world1)
                 \<noteq> Threw ThreadStartFailed"
    using okc by (simp add: world1_def)
  have live: "objects world1 100 = Some timer1 \<and> worker_thread timer1 \<noteq> Joined \<and>
              sems world1 100 = Some 0 \<and> (is_running timer1 \<longrightarrow> True) \<and>
              \<not> signal_mutex world1"
    by simp
  have free: "\<not> signal_mutex world1" by simp
  have 1: "registry_inv (snd (RobustTimer_ctor 34 35 True (Some 8) True 200 50 (Some 1) world1))"
    using t [THEN conjunct1, rule_format, OF fresh] .
  have 2: "registry_inv (snd (RobustTimer_dtor True 100 world1)) \<and>
           signal_map (snd (RobustTimer_dtor True 100 world1)) (signal_number timer1) = None"
    using t [THEN conjunct2, THEN conjunct1, rule_format, OF live] by blast
  have 3: "run 100 [Start True, Signal 34, Worker, Stop True] world1 \<noteq> None"
    using t [THEN conjunct2, THEN conjunct2, THEN conjunct2, THEN conjunct1, rule_format,
             OF free] .
  then obtain w' where w': "run 100 [Start True, Signal 34, Worker, Stop True] world1 = Some w'"
    by blast
  have 4: "registry_inv w'"
    using t [THEN conjunct2, THEN conjunct2, THEN conjunct1, rule_format, OF w'] .
  have 5: "signal_map (snd (RobustTimer_ctor 34 35 True None True 200 50 (Some 1) world1)) =
             signal_map world1"
    using t [THEN conjunct2, THEN conjunct2, THEN conjunct2, THEN conjunct2, THEN conjunct2,
             rule_format, of 34 "Some 1" 35 True 200 50] failc free
    by simp
  from inv fresh live okc failc sm 1 2 w' 4 5 show ?thesis by simp
qed

section \<open>Exhaustion of the pool\<close>



end
